theory Spec2Isabelle
  imports Complex_Main "HOL-Library.Sublist" "HOL-Library.Multiset"
begin

section \<open>RDF terms and quads\<close>

text \<open>
  The store exchanges RDF/JS quads with its callers. A term is one of the four kinds the
  schema lists for \<open>term_type\<close>: \<open>'NamedNode', 'Literal', 'BlankNode', 'DefaultGraph'\<close>.
  A literal carries its lexical value, its language tag (empty when absent) and the IRI
  of its datatype (the \<open>value\<close> of the \<open>datatype\<close> named node).
\<close>

datatype rdf_term =
    NamedNode string
  | BlankNode string
  | Literal string string string
  | DefaultGraph

fun termType :: "rdf_term \<Rightarrow> string" where
  "termType (NamedNode v) = ''NamedNode''"
| "termType (BlankNode v) = ''BlankNode''"
| "termType (Literal v l d) = ''Literal''"
| "termType DefaultGraph = ''DefaultGraph''"

fun term_value :: "rdf_term \<Rightarrow> string" where
  "term_value (NamedNode v) = v"
| "term_value (BlankNode v) = v"
| "term_value (Literal v l d) = v"
| "term_value DefaultGraph = []"

datatype quad =
  Quad (q_subject: rdf_term) (q_predicate: rdf_term) (q_object: rdf_term) (q_graph: rdf_term)

definition rdf_langString :: string where
  "rdf_langString = ''http://www.w3.org/1999/02/22-rdf-syntax-ns#langString''"

definition xsd_string :: string where
  "xsd_string = ''http://www.w3.org/2001/XMLSchema#string''"

subsection \<open>The data factory\<close>

text \<open>
  \<open>SqliteSearchStore\<close> builds every term it returns through its constructor parameter
  \<open>df: rdfjs.DataFactory\<close>. A factory call either returns a term or throws (a factory
  may validate the string it is given), so each method returns a sum.
  The second argument of \<open>literal\<close> is a language tag (a string) or a datatype (a term).
\<close>

datatype error = FactoryError | ConstraintViolation | RangeError

record data_factory =
  namedNode :: "string \<Rightarrow> error + rdf_term"
  blankNode :: "string \<Rightarrow> error + rdf_term"
  literal :: "string \<Rightarrow> string + rdf_term \<Rightarrow> error + rdf_term"

text \<open>
  The factory of the RDF/JS interface description, as the package \<open>rdf-data-factory\<close>
  implements it: no validation, a string second argument of \<open>literal\<close> is the language
  tag (the datatype is then \<open>rdf:langString\<close>), a term second argument is the datatype.
\<close>

definition rdf_data_factory :: data_factory where
  "rdf_data_factory =
     \<lparr> namedNode = (\<lambda>v. Inr (NamedNode v)),
       blankNode = (\<lambda>v. Inr (BlankNode v)),
       literal = (\<lambda>v ld. case ld of
                     Inl l \<Rightarrow> Inr (Literal v l rdf_langString)
                   | Inr t \<Rightarrow> Inr (Literal v [] (term_value t))) \<rparr>"

text \<open>
  A factory follows the RDF/JS interface when every call that returns, returns the term
  the interface prescribes for its arguments.
\<close>

definition rdfjs_factory :: "data_factory \<Rightarrow> bool" where
  "rdfjs_factory df \<longleftrightarrow>
     (\<forall>v t. namedNode df v = Inr t \<longrightarrow> t = NamedNode v) \<and>
     (\<forall>v t. blankNode df v = Inr t \<longrightarrow> t = BlankNode v) \<and>
     (\<forall>v l t. literal df v (Inl l) = Inr t \<longrightarrow> t = Literal v l rdf_langString) \<and>
     (\<forall>v d t. literal df v (Inr (NamedNode d)) = Inr t \<longrightarrow> t = Literal v [] d)"

section \<open>The statement table\<close>

text \<open>
  A row of \<open>kb_statements\<close>. The seven text columns are the values an insert supplies;
  \<open>statement_id\<close> is the \<open>INTEGER PRIMARY KEY AUTOINCREMENT\<close> the table assigns.
\<close>

record new_statement =
  subject :: string
  predicate :: string
  object :: string
  graph :: string
  term_type :: string
  object_language :: string
  object_datatype :: string

record statement = new_statement +
  statement_id :: int

text \<open>The columns of the constraint \<open>kb_statement_unique\<close>.\<close>

definition kb_statement_unique ::
  "'a new_statement_scheme \<Rightarrow> string \<times> string \<times> string \<times> string \<times> string \<times> string \<times> string" where
  "kb_statement_unique r =
     (subject r, predicate r, object r, graph r, term_type r, object_language r, object_datatype r)"

text \<open>
  The database as the store sees it: the rows of \<open>kb_statements\<close> in rowid order, the
  largest rowid the table ever held (\<open>sqlite_sequence\<close>, kept by \<open>AUTOINCREMENT\<close>) and
  the connection's \<open>PRAGMA recursive_triggers\<close>, which the schema asks to be \<open>ON\<close>.
\<close>

record database =
  kb_statements :: "statement list"
  sqlite_sequence :: int
  recursive_triggers :: bool

definition empty_database :: "bool \<Rightarrow> database" where
  "empty_database rt = \<lparr> kb_statements = [], sqlite_sequence = 0, recursive_triggers = rt \<rparr>"

section \<open>Parsing a statement id\<close>

text \<open>
  The store's interface passes statement ids as strings and the store calls JavaScript's
  \<open>parseInt(statementId)\<close>: leading white space is skipped, an optional sign is read,
  a prefix \<open>0x\<close> or \<open>0X\<close> selects radix 16 (radix 10 otherwise), and the longest run of
  digits is converted; with no digit at all the result is \<open>NaN\<close>. Strings are byte
  lists here, so the white space of ECMAScript beyond ASCII appears in its UTF-8 encoding.
\<close>

datatype js_number = NaN | Finite int | Infinity

definition StrWhiteSpaceChar :: "string list" where
  "StrWhiteSpaceChar =
     [[CHR 0x09], [CHR 0x0A], [CHR 0x0B], [CHR 0x0C], [CHR 0x0D], [CHR 0x20],
      [CHR 0xC2, CHR 0xA0], [CHR 0xE1, CHR 0x9A, CHR 0x80],
      [CHR 0xE2, CHR 0x80, CHR 0x80], [CHR 0xE2, CHR 0x80, CHR 0x81],
      [CHR 0xE2, CHR 0x80, CHR 0x82], [CHR 0xE2, CHR 0x80, CHR 0x83],
      [CHR 0xE2, CHR 0x80, CHR 0x84], [CHR 0xE2, CHR 0x80, CHR 0x85],
      [CHR 0xE2, CHR 0x80, CHR 0x86], [CHR 0xE2, CHR 0x80, CHR 0x87],
      [CHR 0xE2, CHR 0x80, CHR 0x88], [CHR 0xE2, CHR 0x80, CHR 0x89],
      [CHR 0xE2, CHR 0x80, CHR 0x8A], [CHR 0xE2, CHR 0x80, CHR 0xA8],
      [CHR 0xE2, CHR 0x80, CHR 0xA9], [CHR 0xE2, CHR 0x80, CHR 0xAF],
      [CHR 0xE2, CHR 0x81, CHR 0x9F], [CHR 0xE3, CHR 0x80, CHR 0x80],
      [CHR 0xEF, CHR 0xBB, CHR 0xBF]]"

lemma StrWhiteSpaceChar_nonempty: "w \<in> set StrWhiteSpaceChar \<Longrightarrow> w \<noteq> []"
  by (auto simp: StrWhiteSpaceChar_def)

function TrimStart :: "string \<Rightarrow> string" where
  "TrimStart s =
     (case find (\<lambda>w. prefix w s) StrWhiteSpaceChar of
        None \<Rightarrow> s
      | Some w \<Rightarrow> TrimStart (drop (length w) s))"
  by pat_completeness auto
termination
proof (relation "measure length")
  fix s w
  assume "find (\<lambda>w. prefix w s) StrWhiteSpaceChar = Some w"
  then have "w \<in> set StrWhiteSpaceChar" and "prefix w s"
    by (auto simp: find_Some_iff)
  then have "w \<noteq> []" and "length w \<le> length s"
    by (auto simp: StrWhiteSpaceChar_nonempty prefix_length_le)
  then show "(drop (length w) s, s) \<in> measure length"
    by (cases w) auto
qed simp

declare TrimStart.simps [simp del]

definition digit_value :: "nat \<Rightarrow> char \<Rightarrow> nat option" where
  "digit_value R c =
     (let n = (of_char c :: nat);
          d = (if 48 \<le> n \<and> n \<le> 57 then n - 48
               else if 97 \<le> n \<and> n \<le> 122 then n - 87
               else if 65 \<le> n \<and> n \<le> 90 then n - 55
               else 36)
      in if d < R then Some d else None)"

text \<open>
  A JavaScript number is a double: an integer of magnitude below \<open>2^53\<close> is kept, a larger
  one is rounded to 53 significant bits (ties to even), and \<open>2^1024\<close> or more is infinite.
\<close>

function bit_width :: "int \<Rightarrow> nat" where
  "bit_width a = (if a \<le> 0 then 0 else Suc (bit_width (a div 2)))"
  by pat_completeness auto
termination
  by (relation "measure nat") auto

declare bit_width.simps [simp del]

definition to_Number :: "int \<Rightarrow> js_number" where
  "to_Number n =
     (let a = \<bar>n\<bar> in
      if a < 2 ^ 53 then Finite n
      else
        let e = bit_width a - 53;
            q = a div 2 ^ e;
            r = a mod 2 ^ e;
            h = 2 ^ (e - 1);
            m = (if h < r \<or> (r = h \<and> odd q) then q + 1 else q)
        in if 2 ^ 1024 \<le> m * 2 ^ e then Infinity
           else Finite (sgn n * (m * 2 ^ e)))"

definition parseInt :: "string \<Rightarrow> js_number" where
  "parseInt string =
     (let S = TrimStart string;
          sign = (if take 1 S = ''-'' then - 1 else 1 :: int);
          S = (if take 1 S = ''+'' \<or> take 1 S = ''-'' then drop 1 S else S);
          R = (if take 2 S = ''0x'' \<or> take 2 S = ''0X'' then 16 else 10 :: nat);
          S = (if R = 16 then drop 2 S else S);
          Z = takeWhile (\<lambda>c. digit_value R c \<noteq> None) S
      in if Z = [] then NaN
         else to_Number (sign *
                foldl (\<lambda>a c. case digit_value R c of Some d \<Rightarrow> a * int R + int d | None \<Rightarrow> a) 0 Z))"

definition isNaN :: "js_number \<Rightarrow> bool" where
  "isNaN x \<longleftrightarrow> x = NaN"

text \<open>
  The parsed number is an argument of the statement \<open>WHERE statement_id = ?\<close>. The libSQL
  client converts every argument before the statement is run (\<open>valueToSql\<close>) and refuses
  a number that is not finite: it throws
  \<open>RangeError("Only finite numbers (not Infinity or NaN) can be passed as arguments")\<close>.
  The methods of the store await the statement without a \<open>catch\<close>, so the error is theirs.
\<close>

definition valueToSql :: "js_number \<Rightarrow> error + int" where
  "valueToSql v = (case v of Finite n \<Rightarrow> Inr n | _ \<Rightarrow> Inl RangeError)"

section \<open>SqliteSearchStore\<close>

subsection \<open>addStatements\<close>

text \<open>The object literal that \<open>statements.map\<close> builds for one quad.\<close>

definition addStatements_values :: "quad \<Rightarrow> new_statement" where
  "addStatements_values quad =
     \<lparr> subject = term_value (q_subject quad),
       predicate = term_value (q_predicate quad),
       object = term_value (q_object quad),
       graph = term_value (q_graph quad),
       term_type = termType (q_object quad),
       object_language = (case q_object quad of Literal v l d \<Rightarrow> l | _ \<Rightarrow> []),
       object_datatype = (case q_object quad of Literal v l d \<Rightarrow> d | _ \<Rightarrow> []) \<rparr>"

text \<open>
  \<open>AUTOINCREMENT\<close>: a new rowid is one more than the largest rowid the table has ever
  held. SQLite draws the rowid before it checks the constraints, so a row that is then
  skipped still advances the sequence (its documentation allows such gaps).
\<close>

definition new_rowid :: "database \<Rightarrow> int" where
  "new_rowid db = foldr max (map statement_id (kb_statements db)) (sqlite_sequence db) + 1"

definition stored :: "int \<Rightarrow> new_statement \<Rightarrow> statement" where
  "stored i v =
     \<lparr> subject = subject v, predicate = predicate v, object = object v, graph = graph v,
       term_type = term_type v, object_language = object_language v,
       object_datatype = object_datatype v, statement_id = i \<rparr>"

text \<open>
  Inserting one row of a \<open>VALUES\<close> list. A row that repeats the seven columns of
  \<open>kb_statement_unique\<close> conflicts: the constraint aborts the statement, unless the
  insert says \<open>ON CONFLICT DO NOTHING\<close>, which skips the row.
\<close>

datatype on_conflict = Abort | DoNothing

definition insert_row :: "on_conflict \<Rightarrow> new_statement \<Rightarrow> database \<Rightarrow> error + database" where
  "insert_row oc v db =
     (let i = new_rowid db in
      if kb_statement_unique v \<in> set (map kb_statement_unique (kb_statements db)) then
        (case oc of
           Abort \<Rightarrow> Inl ConstraintViolation
         | DoNothing \<Rightarrow> Inr (db\<lparr>sqlite_sequence := i\<rparr>))
      else Inr (db\<lparr>kb_statements := kb_statements db @ [stored i v], sqlite_sequence := i\<rparr>))"

fun insert_values :: "on_conflict \<Rightarrow> new_statement list \<Rightarrow> database \<Rightarrow> error + database" where
  "insert_values oc [] db = Inr db"
| "insert_values oc (v # vs) db =
     (case insert_row oc v db of
        Inl e \<Rightarrow> Inl e
      | Inr db' \<Rightarrow> insert_values oc vs db')"

definition addStatements :: "quad list \<Rightarrow> database \<Rightarrow> error + database" where
  "addStatements statements db =
     (if length statements = 0 then Inr db
      else insert_values DoNothing (map addStatements_values statements) db)"

definition addStatement :: "quad \<Rightarrow> database \<Rightarrow> error + database" where
  "addStatement statement db = addStatements [statement] db"

subsection \<open>getStatements and getStatement\<close>

text \<open>\<open>rows.map\<close> with a callback that may throw: the first exception ends the call.\<close>

fun map_rows :: "('a \<Rightarrow> error + 'b) \<Rightarrow> 'a list \<Rightarrow> error + 'b list" where
  "map_rows f [] = Inr []"
| "map_rows f (x # xs) =
     (case f x of
        Inl e \<Rightarrow> Inl e
      | Inr y \<Rightarrow> (case map_rows f xs of Inl e \<Rightarrow> Inl e | Inr ys \<Rightarrow> Inr (y # ys)))"

text \<open>
  The argument \<open>row.objectLanguage || this.df.namedNode(row.objectDatatype)\<close>:
  a non-empty string is truthy, so the factory is asked for the datatype node only when
  the language column is empty.
\<close>

definition languageOrDatatype :: "data_factory \<Rightarrow> 'a new_statement_scheme \<Rightarrow> error + (string + rdf_term)" where
  "languageOrDatatype df row =
     (if object_language row \<noteq> [] then Inr (Inl (object_language row))
      else (case namedNode df (object_datatype row) of
              Inl e \<Rightarrow> Inl e
            | Inr t \<Rightarrow> Inr (Inr t)))"

text \<open>
  The object of a row as \<open>getStatements\<close> builds it. In the blank-node branch the code
  first assigns \<open>this.df.namedNode(row.object)\<close> and then overwrites the variable.
\<close>

definition getStatements_object :: "data_factory \<Rightarrow> 'a new_statement_scheme \<Rightarrow> error + rdf_term" where
  "getStatements_object df row =
     (if term_type row = ''Literal'' then
        (case languageOrDatatype df row of
           Inl e \<Rightarrow> Inl e
         | Inr ld \<Rightarrow> literal df (object row) ld)
      else if term_type row = ''BlankNode'' then
        (case namedNode df (object row) of
           Inl e \<Rightarrow> Inl e
         | Inr _ \<Rightarrow>
             (if take 2 (object row) = ''_:'' then blankNode df (drop 2 (object row))
              else namedNode df (object row)))
      else namedNode df (object row))"

text \<open>Subject, predicate and graph are built first, then the object, then the quad.\<close>

definition quad_of_row ::
  "data_factory \<Rightarrow> (data_factory \<Rightarrow> 'a new_statement_scheme \<Rightarrow> error + rdf_term) \<Rightarrow>
     'a new_statement_scheme \<Rightarrow> error + quad" where
  "quad_of_row df object_of row =
     (case namedNode df (subject row) of
        Inl e \<Rightarrow> Inl e
      | Inr s \<Rightarrow>
          (case namedNode df (predicate row) of
             Inl e \<Rightarrow> Inl e
           | Inr p \<Rightarrow>
               (case namedNode df (graph row) of
                  Inl e \<Rightarrow> Inl e
                | Inr g \<Rightarrow>
                    (case object_of df row of
                       Inl e \<Rightarrow> Inl e
                     | Inr obj \<Rightarrow> Inr (Quad s p obj g)))))"

text \<open>
  The \<open>rows\<close> of \<open>getStatements\<close>: \<open>select().from(kbStatements).where(eq(kbStatements.graph,
  graphId)).all()\<close>. The query names no order; SQLite walks the table (or \<open>kb_g_index\<close>,
  whose equal keys lie in rowid order) and so yields the rows as the table holds them.
\<close>

definition getStatements_rows :: "string \<Rightarrow> database \<Rightarrow> statement list" where
  "getStatements_rows graphId db = filter (\<lambda>row. graph row = graphId) (kb_statements db)"

definition getStatements :: "data_factory \<Rightarrow> string \<Rightarrow> database \<Rightarrow> error + quad list" where
  "getStatements df graphId db =
     map_rows (quad_of_row df getStatements_object) (getStatements_rows graphId db)"

text \<open>The object of a row as \<open>getStatement\<close> builds it: no branch for blank nodes.\<close>

definition getStatement_object :: "data_factory \<Rightarrow> 'a new_statement_scheme \<Rightarrow> error + rdf_term" where
  "getStatement_object df row =
     (if term_type row = ''Literal'' then
        (case languageOrDatatype df row of
           Inl e \<Rightarrow> Inl e
         | Inr ld \<Rightarrow> literal df (object row) ld)
      else namedNode df (object row))"

text \<open>\<open>None\<close> is the \<open>null\<close> the method returns.\<close>

definition getStatement :: "data_factory \<Rightarrow> string \<Rightarrow> database \<Rightarrow> error + quad option" where
  "getStatement df statementId db =
     (let id = parseInt statementId in
      if isNaN id then Inr None
      else
        (case valueToSql id of
           Inl e \<Rightarrow> Inl e
         | Inr n \<Rightarrow>
             (case take 1 (filter (\<lambda>r. statement_id r = n) (kb_statements db)) of
                [] \<Rightarrow> Inr None
              | row # _ \<Rightarrow>
                  (case quad_of_row df getStatement_object row of
                     Inl e \<Rightarrow> Inl e
                   | Inr q \<Rightarrow> Inr (Some q)))))"

subsection \<open>removeStatements and removeStatement\<close>

text \<open>
  The condition of the trigger \<open>kb_statements_ad_bn\<close>:
  \<open>old.term_type = 'BlankNode' OR OLD.object LIKE 'urn:uuid:%' OR OLD.object LIKE '.well-known/genid/%'\<close>.
  SQLite's \<open>LIKE\<close> ignores the case of ASCII letters; neither pattern has a wildcard
  before its final \<open>%\<close>, so each is a prefix test.
\<close>

definition ascii_lower :: "char \<Rightarrow> char" where
  "ascii_lower c =
     (let n = (of_char c :: nat) in if 65 \<le> n \<and> n \<le> 90 then char_of (n + 32) else c)"

definition like_prefix :: "string \<Rightarrow> string \<Rightarrow> bool" where
  "like_prefix s p \<longleftrightarrow> map ascii_lower (take (length p) s) = map ascii_lower p"

definition kb_statements_ad_bn_when :: "'a new_statement_scheme \<Rightarrow> bool" where
  "kb_statements_ad_bn_when old \<longleftrightarrow>
     term_type old = ''BlankNode'' \<or> like_prefix (object old) ''urn:uuid:''
       \<or> like_prefix (object old) ''.well-known/genid/''"

definition rowids :: "(statement \<Rightarrow> bool) \<Rightarrow> statement list \<Rightarrow> int list" where
  "rowids P tbl = map statement_id (filter P tbl)"

text \<open>
  A \<open>DELETE\<close> on \<open>kb_statements\<close> collects the rowids its \<open>WHERE\<close> selects and then
  deletes them one by one; a rowid whose row is already gone is skipped. After each row
  the trigger runs with that row as \<open>old\<close>: when its condition holds it executes
  \<open>DELETE FROM kb_statements WHERE subject = old.object\<close>. With recursive triggers on,
  that inner delete is again a delete with the trigger, run to its end before the outer
  one goes on: its rowids are put in front of the pending ones. With recursive triggers
  off the inner delete removes its rows and fires nothing.
\<close>

function delete_rowids :: "bool \<Rightarrow> int list \<Rightarrow> statement list \<Rightarrow> statement list" where
  "delete_rowids rt [] tbl = tbl"
| "delete_rowids rt (i # pending) tbl =
     (case find (\<lambda>r. statement_id r = i) tbl of
        None \<Rightarrow> delete_rowids rt pending tbl
      | Some old \<Rightarrow>
          (let tbl' = filter (\<lambda>r. statement_id r \<noteq> i) tbl in
           if kb_statements_ad_bn_when old then
             (if rt then
                delete_rowids rt (rowids (\<lambda>r. subject r = object old) tbl' @ pending) tbl'
              else delete_rowids rt pending (filter (\<lambda>r. subject r \<noteq> object old) tbl'))
           else delete_rowids rt pending tbl'))"
  by pat_completeness auto

lemma find_filter_shorter:
  assumes "find (\<lambda>r. statement_id r = i) tbl = Some old"
  shows "length (filter (\<lambda>r. statement_id r \<noteq> i \<and> Q r) tbl) < length tbl"
proof -
  from assms have "old \<in> set tbl" and "statement_id old = i"
    by (auto simp: find_Some_iff)
  then show ?thesis
    by (intro length_filter_less[of old]) auto
qed

termination delete_rowids
proof (relation "measures [\<lambda>(rt, p, t). length t, \<lambda>(rt, p, t). length p]")
  show "wf (measures [\<lambda>(rt, p, t). length t, \<lambda>(rt, p, t). length (p :: int list)])"
    by simp
qed (use find_filter_shorter[where Q = "\<lambda>r. True"] find_filter_shorter in auto)

declare delete_rowids.simps [simp del]

definition sql_delete :: "(statement \<Rightarrow> bool) \<Rightarrow> database \<Rightarrow> database" where
  "sql_delete P db =
     db\<lparr>kb_statements :=
          delete_rowids (recursive_triggers db) (rowids P (kb_statements db)) (kb_statements db)\<rparr>"

definition removeStatements :: "string \<Rightarrow> database \<Rightarrow> database" where
  "removeStatements graphId db = sql_delete (\<lambda>r. graph r = graphId) db"

definition removeStatement :: "string \<Rightarrow> database \<Rightarrow> error + database" where
  "removeStatement statementId db =
     (let id = parseInt statementId in
      if isNaN id then Inr db
      else
        (case valueToSql id of
           Inl e \<Rightarrow> Inl e
         | Inr n \<Rightarrow> Inr (sql_delete (\<lambda>r. statement_id r = n) db)))"

text \<open>
  A call of one of the store's writing methods, and a run of such calls. A call that
  throws leaves the database as it was.
\<close>

datatype call = AddStatements "quad list" | RemoveStatements string | RemoveStatement string

fun call_store :: "call \<Rightarrow> database \<Rightarrow> database" where
  "call_store (AddStatements statements) db =
     (case addStatements statements db of Inl e \<Rightarrow> db | Inr db' \<Rightarrow> db')"
| "call_store (RemoveStatements graphId) db = removeStatements graphId db"
| "call_store (RemoveStatement statementId) db =
     (case removeStatement statementId db of Inl e \<Rightarrow> db | Inr db' \<Rightarrow> db')"

definition run :: "call list \<Rightarrow> database \<Rightarrow> database" where
  "run calls db = foldl (\<lambda>db c. call_store c db) db calls"

section \<open>Hybrid search by reciprocal rank fusion\<close>

text \<open>
  The hybrid search itself is not among the sources. They hold its last query only, in
  the paper:
  \<open>SELECT c.id, c.term_id, c.text, SUM(s.score) AS rrf_score FROM combined_scores s
  JOIN kb_chunks c ON s.rowid = c.id GROUP BY c.id ORDER BY rrf_score DESC\<close>.
  The relation \<open>combined_scores\<close> and the constant \<open>k\<close> are missing there; the paper
  gives the formula \<open>score = \<Sum> 1 / (k + rank(vector)) + 1 / (k + rank(fts))\<close>, and section
  4.6 of the spec the same. Scores are rational numbers here. A rank list is the list of
  chunk ids, best first. A chunk is a row of \<open>kb_chunks\<close> without its embedding.
\<close>

record chunk =
  chunk_id :: int
  chunk_statement_id :: "int option"
  content :: string

text \<open>
  Modelled from the spec: the relation \<open>combined_scores\<close> is missing. Each of the two rank
  lists (rank 1 is the best match) gives a chunk the score \<open>1 / (k_constant + rank)\<close>.
\<close>

fun rank_scores :: "rat \<Rightarrow> nat \<Rightarrow> int list \<Rightarrow> (int \<times> rat) list" where
  "rank_scores k rank [] = []"
| "rank_scores k rank (c # cs) = (c, 1 / (k + of_nat rank)) # rank_scores k (Suc rank) cs"

definition combined_scores :: "rat \<Rightarrow> int list \<Rightarrow> int list \<Rightarrow> (int \<times> rat) list" where
  "combined_scores k fts vec = rank_scores k 1 fts @ rank_scores k 1 vec"

text \<open>
  The query of the paper: the join with \<open>kb_chunks\<close>, grouped by chunk, with the summed
  score.
\<close>

definition rrf_score :: "(int \<times> rat) list \<Rightarrow> int \<Rightarrow> rat" where
  "rrf_score s c = sum_list (map snd (filter (\<lambda>row. fst row = c) s))"

definition rrf_groups :: "chunk list \<Rightarrow> (int \<times> rat) list \<Rightarrow> (int \<times> int option \<times> rat) list" where
  "rrf_groups kb_chunks s =
     map (\<lambda>c. (chunk_id c, chunk_statement_id c, rrf_score s (chunk_id c)))
       (filter (\<lambda>c. chunk_id c \<in> fst ` set s) kb_chunks)"

text \<open>
  \<open>ORDER BY rrf_score DESC\<close>: the query returns the rows of the groups so arranged that
  no row comes after a row of lower score. It names no order among rows of equal score,
  and \<open>GROUP BY\<close> fixes none, so every such arrangement is a result the engine may give.
  The relation \<open>combined_scores\<close> is the parameter \<open>s\<close>.
\<close>

definition rrf_query ::
  "chunk list \<Rightarrow> (int \<times> rat) list \<Rightarrow> (int \<times> int option \<times> rat) list \<Rightarrow> bool" where
  "rrf_query kb_chunks s res \<longleftrightarrow>
     mset res = mset (rrf_groups kb_chunks s) \<and>
     sorted_wrt (\<lambda>a b. snd (snd b) \<le> snd (snd a)) res"

text \<open>
  The words of the spec for one list: a chunk contributes \<open>1 / (k_constant + rank)\<close>,
  its rank being its position counted from 1, and nothing when it is absent.
\<close>

definition contribution :: "rat \<Rightarrow> int list \<Rightarrow> int \<Rightarrow> rat" where
  "contribution k ranked c =
     (if c \<in> set ranked then 1 / (k + of_nat (Suc (length (takeWhile (\<lambda>x. x \<noteq> c) ranked))))
      else 0)"

section \<open>Examples and notions used in the claims\<close>

text \<open>
  The store of the cascade example: \<open>(A, p, _b1)\<close>, \<open>(_b1, q, _b2)\<close>, \<open>(_b2, r, "leaf")\<close>,
  ingested into an empty table on a connection with recursive triggers.
\<close>

definition cascade_example_quads :: "quad list" where
  "cascade_example_quads =
     [Quad (NamedNode ''http://example.org/A'') (NamedNode ''http://example.org/p'')
        (BlankNode ''b1'') (NamedNode ''http://example.org/g''),
      Quad (BlankNode ''b1'') (NamedNode ''http://example.org/q'')
        (BlankNode ''b2'') (NamedNode ''http://example.org/g''),
      Quad (BlankNode ''b2'') (NamedNode ''http://example.org/r'')
        (Literal ''leaf'' [] xsd_string) (NamedNode ''http://example.org/g'')]"

definition cascade_example :: "error + database" where
  "cascade_example = addStatements cascade_example_quads (empty_database True)"

text \<open>
  The quads whose shape a row keeps: named nodes as subject, predicate and graph, and as
  object a named node or a literal (a language-tagged literal has the datatype
  \<open>rdf:langString\<close>).
\<close>

definition storable :: "quad \<Rightarrow> bool" where
  "storable q \<longleftrightarrow>
     termType (q_subject q) = ''NamedNode'' \<and> termType (q_predicate q) = ''NamedNode'' \<and>
     termType (q_graph q) = ''NamedNode'' \<and>
     (case q_object q of
        NamedNode v \<Rightarrow> True
      | Literal v l d \<Rightarrow> l = [] \<or> d = rdf_langString
      | _ \<Rightarrow> False)"

text \<open>Tables used as concrete inputs below.\<close>

definition one_row :: database where
  "one_row =
     \<lparr>kb_statements =
        [\<lparr>subject = ''http://example.org/s'', predicate = ''http://example.org/p'',
          object = ''o'', graph = ''http://example.org/g'', term_type = ''Literal'',
          object_language = [], object_datatype = xsd_string, statement_id = 1\<rparr>],
      sqlite_sequence = 1, recursive_triggers = True\<rparr>"

definition chain_db :: database where
  "chain_db =
     \<lparr>kb_statements =
        [\<lparr>subject = ''http://example.org/A'', predicate = ''http://example.org/p'',
          object = ''b1'', graph = ''http://example.org/g'', term_type = ''BlankNode'',
          object_language = [], object_datatype = [], statement_id = 1\<rparr>,
         \<lparr>subject = ''b1'', predicate = ''http://example.org/q'', object = ''leaf'',
          graph = ''http://example.org/g'', term_type = ''Literal'', object_language = [],
          object_datatype = ''http://www.w3.org/2001/XMLSchema#string'', statement_id = 2\<rparr>,
         \<lparr>subject = ''http://example.org/C'', predicate = ''http://example.org/p'',
          object = ''b1'', graph = ''http://example.org/g'', term_type = ''BlankNode'',
          object_language = [], object_datatype = [], statement_id = 3\<rparr>],
      sqlite_sequence = 3, recursive_triggers = True\<rparr>"

definition three_rows :: database where
  "three_rows =
     \<lparr>kb_statements =
        [\<lparr>subject = ''http://example.org/A'', predicate = ''http://example.org/p'',
          object = ''b1'', graph = ''http://example.org/g'', term_type = ''BlankNode'',
          object_language = [], object_datatype = [], statement_id = 1\<rparr>,
         \<lparr>subject = ''b1'', predicate = ''http://example.org/q'', object = ''b2'',
          graph = ''http://example.org/g'', term_type = ''BlankNode'', object_language = [],
          object_datatype = [], statement_id = 2\<rparr>,
         \<lparr>subject = ''b2'', predicate = ''http://example.org/r'', object = ''leaf'',
          graph = ''http://example.org/g'', term_type = ''Literal'', object_language = [],
          object_datatype = ''http://www.w3.org/2001/XMLSchema#string'', statement_id = 3\<rparr>],
      sqlite_sequence = 3, recursive_triggers = True\<rparr>"

text \<open>An id of 310 digits: \<open>1\<close> followed by 309 zeros, the decimal text of \<open>10^309\<close>.\<close>

definition infinite_id :: string where
  "infinite_id = CHR ''1'' # replicate 309 (CHR ''0'')"

text \<open>
  The same table on a connection that has not set \<open>PRAGMA recursive_triggers\<close>: the
  setting is off by default.
\<close>

definition three_rows_default :: database where
  "three_rows_default = three_rows\<lparr>recursive_triggers := False\<rparr>"

definition leaf_quad :: quad where
  "leaf_quad =
     Quad (NamedNode ''http://example.org/s'') (NamedNode ''http://example.org/p'')
       (Literal ''o'' [] xsd_string) (NamedNode ''http://example.org/g'')"

text \<open>
  Two graphs that hold the same subject, predicate and object texts: in each, a node \<open>A\<close>
  points to the blank node \<open>b1\<close>, which carries a literal.
\<close>

definition two_graphs_quads :: "quad list" where
  "two_graphs_quads =
     [Quad (NamedNode ''http://example.org/A'') (NamedNode ''http://example.org/p'')
        (BlankNode ''b1'') (NamedNode ''http://example.org/g1''),
      Quad (BlankNode ''b1'') (NamedNode ''http://example.org/q'')
        (Literal ''x'' [] xsd_string) (NamedNode ''http://example.org/g1''),
      Quad (NamedNode ''http://example.org/A'') (NamedNode ''http://example.org/p'')
        (BlankNode ''b1'') (NamedNode ''http://example.org/g2''),
      Quad (BlankNode ''b1'') (NamedNode ''http://example.org/q'')
        (Literal ''x'' [] xsd_string) (NamedNode ''http://example.org/g2'')]"

definition two_graphs :: database where
  "two_graphs =
     \<lparr>kb_statements =
        [\<lparr>subject = ''http://example.org/A'', predicate = ''http://example.org/p'',
          object = ''b1'', graph = ''http://example.org/g1'', term_type = ''BlankNode'',
          object_language = [], object_datatype = [], statement_id = 1\<rparr>,
         \<lparr>subject = ''b1'', predicate = ''http://example.org/q'', object = ''x'',
          graph = ''http://example.org/g1'', term_type = ''Literal'', object_language = [],
          object_datatype = ''http://www.w3.org/2001/XMLSchema#string'', statement_id = 2\<rparr>,
         \<lparr>subject = ''http://example.org/A'', predicate = ''http://example.org/p'',
          object = ''b1'', graph = ''http://example.org/g2'', term_type = ''BlankNode'',
          object_language = [], object_datatype = [], statement_id = 3\<rparr>,
         \<lparr>subject = ''b1'', predicate = ''http://example.org/q'', object = ''x'',
          graph = ''http://example.org/g2'', term_type = ''Literal'', object_language = [],
          object_datatype = ''http://www.w3.org/2001/XMLSchema#string'', statement_id = 4\<rparr>],
      sqlite_sequence = 4, recursive_triggers = True\<rparr>"

text \<open>
  A deleted row went with the cascade when its subject is the object of a deleted row
  for which the trigger's condition holds.
\<close>

definition cascaded :: "database \<Rightarrow> database \<Rightarrow> statement \<Rightarrow> bool" where
  "cascaded db db' r \<longleftrightarrow>
     (\<exists>d \<in> set (kb_statements db).
        d \<notin> set (kb_statements db') \<and> kb_statements_ad_bn_when d \<and> subject r = object d)"

text \<open>
  A literal row whose language and datatype columns are both empty (the defaults of the
  two columns).
\<close>

definition untyped_literal :: database where
  "untyped_literal =
     \<lparr>kb_statements =
        [\<lparr>subject = ''http://example.org/s'', predicate = ''http://example.org/p'',
          object = ''o'', graph = ''http://example.org/g'', term_type = ''Literal'',
          object_language = [], object_datatype = [], statement_id = 1\<rparr>],
      sqlite_sequence = 1, recursive_triggers = True\<rparr>"

text \<open>
  The plain string literal: what \<open>literal(value)\<close> builds, the datatype being
  \<open>xsd:string\<close>.
\<close>

definition plain_literal :: "string \<Rightarrow> rdf_term" where
  "plain_literal v = Literal v [] xsd_string"

text \<open>A quad with a blank node as subject, in the default graph, and the table it makes.\<close>

definition blank_subject_quad :: quad where
  "blank_subject_quad =
     Quad (BlankNode ''b1'') (NamedNode ''http://example.org/q'')
       (Literal ''leaf'' [] xsd_string) DefaultGraph"

definition blank_subject_row :: database where
  "blank_subject_row =
     \<lparr>kb_statements =
        [\<lparr>subject = ''b1'', predicate = ''http://example.org/q'', object = ''leaf'',
          graph = [], term_type = ''Literal'', object_language = [],
          object_datatype = ''http://www.w3.org/2001/XMLSchema#string'', statement_id = 1\<rparr>],
      sqlite_sequence = 1, recursive_triggers = True\<rparr>"

text \<open>
  The chunks of the ranking example: \<open>X\<close>, \<open>Y\<close> and \<open>Z\<close> with the chunk ids 1, 2 and 3.
\<close>

definition xyz_chunks :: "chunk list" where
  "xyz_chunks =
     [\<lparr>chunk_id = 1, chunk_statement_id = Some 11, content = ''X''\<rparr>,
      \<lparr>chunk_id = 2, chunk_statement_id = Some 12, content = ''Y''\<rparr>,
      \<lparr>chunk_id = 3, chunk_statement_id = Some 13, content = ''Z''\<rparr>]"

section \<open>Rows and factories\<close>

lemmas parse_eval =
  parseInt_def TrimStart.simps StrWhiteSpaceChar_def digit_value_def to_Number_def isNaN_def

lemmas delete_eval =
  removeStatement_def valueToSql_def removeStatements_def sql_delete_def rowids_def
  kb_statements_ad_bn_when_def
  like_prefix_def ascii_lower_def delete_rowids.simps

lemmas insert_eval =
  addStatements_def insert_row_def new_rowid_def stored_def addStatements_values_def
  kb_statement_unique_def empty_database_def

lemmas select_eval =
  getStatements_def getStatements_rows_def getStatement_def valueToSql_def quad_of_row_def
  getStatements_object_def getStatement_object_def languageOrDatatype_def rdf_data_factory_def

lemma map_rows_Inr_D: "map_rows f xs = Inr ys \<Longrightarrow> map f xs = map Inr ys"
  by (induction xs arbitrary: ys) (auto split: sum.splits)

lemma map_rows_Inr_I: "map f xs = map Inr ys \<Longrightarrow> map_rows f xs = Inr ys"
  by (induction xs arbitrary: ys) auto

lemma quad_of_row_Inr:
  assumes "rdfjs_factory df" and "quad_of_row df object_of row = Inr q"
  shows "q = Quad (NamedNode (subject row)) (NamedNode (predicate row)) (q_object q)
               (NamedNode (graph row))
         \<and> object_of df row = Inr (q_object q)"
  using assms unfolding quad_of_row_def rdfjs_factory_def
  by (auto split: sum.splits)

lemma rdfjs_factory_rdf_data_factory: "rdfjs_factory rdf_data_factory"
  by (simp add: rdfjs_factory_def rdf_data_factory_def)

section \<open>Deleting with the trigger\<close>

lemma delete_rowids_filter: "\<exists>Q. delete_rowids rt ids tbl = filter Q tbl"
proof (induction rt ids tbl rule: delete_rowids.induct)
  case (1 rt tbl)
  have "tbl = filter (\<lambda>r. True) tbl" by simp
  then show ?case unfolding delete_rowids.simps by blast
next
  case (2 rt i pending tbl)
  show ?case
  proof (cases "find (\<lambda>r. statement_id r = i) tbl")
    case None
    with 2 show ?thesis by (simp add: delete_rowids.simps)
  next
    case (Some old)
    define tbl' where "tbl' = filter (\<lambda>r. statement_id r \<noteq> i) tbl"
    consider (rec) "kb_statements_ad_bn_when old" "rt"
      | (flat) "kb_statements_ad_bn_when old" "\<not> rt"
      | (plain) "\<not> kb_statements_ad_bn_when old" by blast
    then show ?thesis
    proof cases
      case rec
      with 2(2)[OF Some tbl'_def] obtain Q where
        "delete_rowids rt (rowids (\<lambda>r. subject r = object old) tbl' @ pending) tbl' = filter Q tbl'"
        by blast
      with Some rec show ?thesis
        by (auto simp: delete_rowids.simps(2) tbl'_def Let_def)
    next
      case flat
      with 2(3)[OF Some tbl'_def] obtain Q where
        "delete_rowids rt pending (filter (\<lambda>r. subject r \<noteq> object old) tbl') =
           filter Q (filter (\<lambda>r. subject r \<noteq> object old) tbl')"
        by blast
      with Some flat show ?thesis
        by (auto simp: delete_rowids.simps(2) tbl'_def Let_def)
    next
      case plain
      with 2(4)[OF Some tbl'_def] obtain Q where
        "delete_rowids rt pending tbl' = filter Q tbl'"
        by blast
      with Some plain show ?thesis
        by (auto simp: delete_rowids.simps(2) tbl'_def Let_def)
    qed
  qed
qed

lemma delete_rowids_subset: "set (delete_rowids rt ids tbl) \<subseteq> set tbl"
proof -
  obtain Q where "delete_rowids rt ids tbl = filter Q tbl"
    using delete_rowids_filter by blast
  then show ?thesis by auto
qed

lemma distinct_id_eq:
  "distinct (map statement_id tbl) \<Longrightarrow> a \<in> set tbl \<Longrightarrow> b \<in> set tbl \<Longrightarrow>
     statement_id a = statement_id b \<Longrightarrow> a = b"
  by (auto simp: distinct_map dest: inj_onD)

lemma find_id_Some:
  "find (\<lambda>r. statement_id r = i) tbl = Some old \<Longrightarrow> old \<in> set tbl \<and> statement_id old = i"
  by (auto simp: find_Some_iff)

lemma delete_rowids_None:
  "find (\<lambda>r. statement_id r = i) tbl = None \<Longrightarrow>
     delete_rowids rt (i # pending) tbl = delete_rowids rt pending tbl"
  by (simp add: delete_rowids.simps(2) Let_def)

lemma delete_rowids_rec:
  "find (\<lambda>r. statement_id r = i) tbl = Some old \<Longrightarrow> kb_statements_ad_bn_when old \<Longrightarrow> rt \<Longrightarrow>
     delete_rowids rt (i # pending) tbl =
       delete_rowids rt
         (rowids (\<lambda>r. subject r = object old) (filter (\<lambda>r. statement_id r \<noteq> i) tbl) @ pending)
         (filter (\<lambda>r. statement_id r \<noteq> i) tbl)"
  by (simp add: delete_rowids.simps(2) Let_def)

lemma delete_rowids_flat:
  "find (\<lambda>r. statement_id r = i) tbl = Some old \<Longrightarrow> kb_statements_ad_bn_when old \<Longrightarrow> \<not> rt \<Longrightarrow>
     delete_rowids rt (i # pending) tbl =
       delete_rowids rt pending
         (filter (\<lambda>r. subject r \<noteq> object old) (filter (\<lambda>r. statement_id r \<noteq> i) tbl))"
  by (simp add: delete_rowids.simps(2) Let_def)

lemma delete_rowids_plain:
  "find (\<lambda>r. statement_id r = i) tbl = Some old \<Longrightarrow> \<not> kb_statements_ad_bn_when old \<Longrightarrow>
     delete_rowids rt (i # pending) tbl =
       delete_rowids rt pending (filter (\<lambda>r. statement_id r \<noteq> i) tbl)"
  by (simp add: delete_rowids.simps(2) Let_def)

lemma delete_rowids_pending_gone:
  "j \<in> set ids \<Longrightarrow> j \<notin> statement_id ` set (delete_rowids rt ids tbl)"
proof (induction rt ids tbl rule: delete_rowids.induct)
  case (1 rt tbl)
  then show ?case by simp
next
  case (2 rt i pending tbl)
  show ?case
  proof (cases "find (\<lambda>r. statement_id r = i) tbl")
    case None
    then have "i \<notin> statement_id ` set tbl"
      by (auto simp: find_None_iff)
    then have "i \<notin> statement_id ` set (delete_rowids rt pending tbl)"
      using delete_rowids_subset[of rt pending tbl] by blast
    with 2(1)[OF None] 2(5) show ?thesis
      by (auto simp: delete_rowids_None[OF None])
  next
    case (Some old)
    define tbl' where "tbl' = filter (\<lambda>r. statement_id r \<noteq> i) tbl"
    have gone: "i \<notin> statement_id ` set tbl'"
      by (auto simp: tbl'_def)
    consider (rec) "kb_statements_ad_bn_when old" "rt"
      | (flat) "kb_statements_ad_bn_when old" "\<not> rt"
      | (plain) "\<not> kb_statements_ad_bn_when old" by blast
    then show ?thesis
    proof cases
      case rec
      let ?ids = "rowids (\<lambda>r. subject r = object old) tbl' @ pending"
      have "i \<notin> statement_id ` set (delete_rowids rt ?ids tbl')"
        using gone delete_rowids_subset[of rt ?ids tbl'] by blast
      moreover have "j \<in> set pending \<Longrightarrow> j \<notin> statement_id ` set (delete_rowids rt ?ids tbl')"
        using 2(2)[OF Some tbl'_def rec] by simp
      ultimately show ?thesis
        using 2(5) by (auto simp: delete_rowids_rec[OF Some rec] tbl'_def)
    next
      case flat
      let ?tbl = "filter (\<lambda>r. subject r \<noteq> object old) tbl'"
      have "i \<notin> statement_id ` set (delete_rowids rt pending ?tbl)"
        using gone delete_rowids_subset[of rt pending ?tbl] by auto
      moreover have "j \<in> set pending \<Longrightarrow> j \<notin> statement_id ` set (delete_rowids rt pending ?tbl)"
        using 2(3)[OF Some tbl'_def flat] by simp
      ultimately show ?thesis
        using 2(5) by (auto simp: delete_rowids_flat[OF Some flat] tbl'_def)
    next
      case plain
      have "i \<notin> statement_id ` set (delete_rowids rt pending tbl')"
        using gone delete_rowids_subset[of rt pending tbl'] by blast
      moreover have "j \<in> set pending \<Longrightarrow> j \<notin> statement_id ` set (delete_rowids rt pending tbl')"
        using 2(4)[OF Some tbl'_def plain] by simp
      ultimately show ?thesis
        using 2(5) by (auto simp: delete_rowids_plain[OF Some plain] tbl'_def)
    qed
  qed
qed

lemma distinct_filter_ids: "distinct (map statement_id tbl) \<Longrightarrow> distinct (map statement_id (filter Q tbl))"
  by (simp add: distinct_map_filter)

lemma delete_rowids_complete:
  "rt \<Longrightarrow> distinct (map statement_id tbl) \<Longrightarrow> d \<in> set tbl \<Longrightarrow>
     d \<notin> set (delete_rowids rt ids tbl) \<Longrightarrow> kb_statements_ad_bn_when d \<Longrightarrow>
     r \<in> set (delete_rowids rt ids tbl) \<Longrightarrow> subject r \<noteq> object d"
proof (induction rt ids tbl rule: delete_rowids.induct)
  case (1 rt tbl)
  then show ?case by (simp add: delete_rowids.simps(1))
next
  case (2 rt i pending tbl)
  show ?case
  proof (cases "find (\<lambda>r. statement_id r = i) tbl")
    case None
    with 2(1)[OF None] 2(5-) show ?thesis
      by (simp add: delete_rowids_None[OF None])
  next
    case (Some old)
    define tbl' where "tbl' = filter (\<lambda>r. statement_id r \<noteq> i) tbl"
    have old: "old \<in> set tbl" "statement_id old = i"
      using find_id_Some[OF Some] by auto
    have dist': "distinct (map statement_id tbl')"
      unfolding tbl'_def using 2(6) by (rule distinct_filter_ids)
    have d_old: "d = old" if "d \<notin> set tbl'"
      using that 2(6,7) old distinct_id_eq[of tbl d old] by (auto simp: tbl'_def)
    show ?thesis
    proof (cases "kb_statements_ad_bn_when old")
      case True
      let ?ids = "rowids (\<lambda>r. subject r = object old) tbl' @ pending"
      let ?R = "delete_rowids rt ?ids tbl'"
      have eq: "delete_rowids rt (i # pending) tbl = ?R"
        using delete_rowids_rec[OF Some True 2(5)] by (simp add: tbl'_def)
      show ?thesis
      proof (cases "d \<in> set tbl'")
        case True
        with 2(2)[OF Some tbl'_def \<open>kb_statements_ad_bn_when old\<close> 2(5) 2(5) dist'] 2(8-) eq
        show ?thesis by simp
      next
        case False
        show ?thesis
        proof
          assume "subject r = object d"
          with d_old[OF False] have sub: "subject r = object old" by simp
          have rR: "r \<in> set ?R" using 2(10) eq by simp
          then have "r \<in> set tbl'" using delete_rowids_subset by blast
          with sub have "statement_id r \<in> set ?ids" by (auto simp: rowids_def)
          from delete_rowids_pending_gone[OF this, of rt tbl'] rR show False by blast
        qed
      qed
    next
      case False
      have eq: "delete_rowids rt (i # pending) tbl = delete_rowids rt pending tbl'"
        using delete_rowids_plain[OF Some False] by (simp add: tbl'_def)
      have "d \<in> set tbl'"
        using d_old False 2(9) by blast
      with 2(4)[OF Some tbl'_def False 2(5) dist'] 2(8-) eq
      show ?thesis by simp
    qed
  qed
qed

lemma delete_rowids_cause:
  "distinct (map statement_id tbl) \<Longrightarrow> d \<in> set tbl \<Longrightarrow> d \<notin> set (delete_rowids rt ids tbl) \<Longrightarrow>
     statement_id d \<in> set ids \<or>
     (\<exists>p \<in> set tbl. p \<notin> set (delete_rowids rt ids tbl) \<and> kb_statements_ad_bn_when p \<and> subject d = object p)"
proof (induction rt ids tbl rule: delete_rowids.induct)
  case (1 rt tbl)
  then show ?case by (simp add: delete_rowids.simps(1))
next
  case (2 rt i pending tbl)
  show ?case
  proof (cases "find (\<lambda>r. statement_id r = i) tbl")
    case None
    with 2(1)[OF None] 2(5-) show ?thesis
      by (auto simp: delete_rowids_None[OF None])
  next
    case (Some old)
    define tbl' where "tbl' = filter (\<lambda>r. statement_id r \<noteq> i) tbl"
    have old: "old \<in> set tbl" "statement_id old = i" "old \<notin> set tbl'"
      using find_id_Some[OF Some] by (auto simp: tbl'_def)
    have sub: "set tbl' \<subseteq> set tbl"
      by (auto simp: tbl'_def)
    have dist': "distinct (map statement_id tbl')"
      unfolding tbl'_def using 2(5) by (rule distinct_filter_ids)
    show ?thesis
    proof (cases "d \<in> set tbl'")
      case False
      with 2(6) have "statement_id d = i" by (auto simp: tbl'_def)
      then show ?thesis by simp
    next
      case inT: True
      consider (rec) "kb_statements_ad_bn_when old" "rt"
        | (flat) "kb_statements_ad_bn_when old" "\<not> rt"
        | (plain) "\<not> kb_statements_ad_bn_when old" by blast
      then show ?thesis
      proof cases
        case rec
        let ?ids = "rowids (\<lambda>r. subject r = object old) tbl' @ pending"
        let ?R = "delete_rowids rt ?ids tbl'"
        have eq: "delete_rowids rt (i # pending) tbl = ?R"
          using delete_rowids_rec[OF Some rec] by (simp add: tbl'_def)
        have oldR: "old \<notin> set ?R"
          using old(3) delete_rowids_subset[of rt ?ids tbl'] by blast
        from 2(2)[OF Some tbl'_def rec dist' inT] 2(7) eq
        consider (child) "statement_id d \<in> set (rowids (\<lambda>r. subject r = object old) tbl')"
          | (pend) "statement_id d \<in> set pending"
          | (casc) p where "p \<in> set tbl'" "p \<notin> set ?R" "kb_statements_ad_bn_when p" "subject d = object p"
          by auto
        then show ?thesis
        proof cases
          case child
          then obtain c where c: "c \<in> set tbl'" "subject c = object old" "statement_id c = statement_id d"
            by (auto simp: rowids_def)
          with distinct_id_eq[OF dist' c(1) inT] have "c = d" by simp
          with c old(1) oldR rec(1) eq show ?thesis by auto
        next
          case pend
          then show ?thesis by simp
        next
          case casc
          with sub eq show ?thesis by auto
        qed
      next
        case flat
        let ?tbl = "filter (\<lambda>r. subject r \<noteq> object old) tbl'"
        let ?R = "delete_rowids rt pending ?tbl"
        have eq: "delete_rowids rt (i # pending) tbl = ?R"
          using delete_rowids_flat[OF Some flat] by (simp add: tbl'_def)
        have oldR: "old \<notin> set ?R"
          using old(3) delete_rowids_subset[of rt pending ?tbl] by auto
        show ?thesis
        proof (cases "d \<in> set ?tbl")
          case False
          with inT have "subject d = object old" by simp
          with old(1) oldR flat(1) eq show ?thesis by auto
        next
          case True
          have "distinct (map statement_id ?tbl)"
            using dist' by (rule distinct_filter_ids)
          from 2(3)[OF Some tbl'_def flat this True] 2(7) eq sub
          show ?thesis by auto
        qed
      next
        case plain
        have eq: "delete_rowids rt (i # pending) tbl = delete_rowids rt pending tbl'"
          using delete_rowids_plain[OF Some plain] by (simp add: tbl'_def)
        from 2(4)[OF Some tbl'_def plain dist' inT] 2(7) eq sub
        show ?thesis by auto
      qed
    qed
  qed
qed

lemma sql_delete_complete:
  assumes "recursive_triggers db" and "distinct (map statement_id (kb_statements db))"
    and "d \<in> set (kb_statements db)" and "d \<notin> set (kb_statements (sql_delete P db))"
    and "kb_statements_ad_bn_when d" and "r \<in> set (kb_statements (sql_delete P db))"
  shows "subject r \<noteq> object d"
  using delete_rowids_complete[OF assms(1,2,3) _ assms(5)] assms(4,6)
  by (simp add: sql_delete_def)

lemma removeStatement_cases:
  assumes "removeStatement statementId db = Inr db'"
  shows "db' = db \<or>
    (\<exists>n. parseInt statementId = Finite n \<and> db' = sql_delete (\<lambda>r. statement_id r = n) db)"
  using assms
  by (auto simp: removeStatement_def valueToSql_def Let_def split: if_splits js_number.splits)

lemma removeStatement_returns:
  "parseInt statementId \<noteq> Infinity \<Longrightarrow> \<exists>db'. removeStatement statementId db = Inr db'"
  by (cases "parseInt statementId") (simp_all add: removeStatement_def valueToSql_def isNaN_def)

lemma cascade_example_eval: "cascade_example = Inr three_rows"
  by (simp add: cascade_example_def cascade_example_quads_def three_rows_def insert_eval
      xsd_string_def)

section \<open>Inserting\<close>

lemma key_stored [simp]: "kb_statement_unique (stored i v) = kb_statement_unique v"
  by (simp add: kb_statement_unique_def stored_def)

lemma graph_stored [simp]: "graph (stored i v) = graph v"
  by (simp add: stored_def)

lemma id_stored [simp]: "statement_id (stored i v) = i"
  by (simp add: stored_def)

lemma insert_row_DoNothing:
  "insert_row DoNothing v db =
     Inr (db\<lparr>kb_statements :=
               (if kb_statement_unique v \<in> set (map kb_statement_unique (kb_statements db))
                then kb_statements db
                else kb_statements db @ [stored (new_rowid db) v]),
             sqlite_sequence := new_rowid db\<rparr>)"
  by (simp add: insert_row_def Let_def)

lemma insert_values_returns: "\<exists>db'. insert_values DoNothing vs db = Inr db'"
  by (induction vs arbitrary: db) (simp_all add: insert_row_DoNothing)

lemma addStatements_returns: "\<exists>db'. addStatements statements db = Inr db'"
  using insert_values_returns by (simp add: addStatements_def)

lemma insert_values_appends:
  "insert_values DoNothing vs db = Inr db' \<Longrightarrow>
     \<exists>new. kb_statements db' = kb_statements db @ new \<and>
           set (map kb_statement_unique new) \<subseteq> set (map kb_statement_unique vs) \<and>
           recursive_triggers db' = recursive_triggers db"
proof (induction vs arbitrary: db)
  case Nil
  then show ?case by simp
next
  case (Cons v vs)
  let ?db1 = "db\<lparr>kb_statements :=
               (if kb_statement_unique v \<in> set (map kb_statement_unique (kb_statements db))
                then kb_statements db
                else kb_statements db @ [stored (new_rowid db) v]),
             sqlite_sequence := new_rowid db\<rparr>"
  from Cons.prems have "insert_values DoNothing vs ?db1 = Inr db'"
    by (simp add: insert_row_DoNothing)
  from Cons.IH[OF this] obtain new where
    new: "kb_statements db' = kb_statements ?db1 @ new"
      "set (map kb_statement_unique new) \<subseteq> set (map kb_statement_unique vs)"
      "recursive_triggers db' = recursive_triggers ?db1"
    by blast
  show ?case
  proof (cases "kb_statement_unique v \<in> set (map kb_statement_unique (kb_statements db))")
    case True
    with new show ?thesis by auto
  next
    case False
    with new have "kb_statements db' = kb_statements db @ (stored (new_rowid db) v # new)"
      by simp
    moreover have "set (map kb_statement_unique (stored (new_rowid db) v # new))
        \<subseteq> set (map kb_statement_unique (v # vs))"
      using new(2) by auto
    ultimately show ?thesis using new(3) by (intro exI[of _ "stored (new_rowid db) v # new"]) simp
  qed
qed

lemma insert_values_keys:
  "insert_values DoNothing vs db = Inr db' \<Longrightarrow>
     set (map kb_statement_unique (kb_statements db')) =
       set (map kb_statement_unique (kb_statements db)) \<union> set (map kb_statement_unique vs)"
proof (induction vs arbitrary: db)
  case Nil
  then show ?case by simp
next
  case (Cons v vs)
  let ?db1 = "db\<lparr>kb_statements :=
               (if kb_statement_unique v \<in> set (map kb_statement_unique (kb_statements db))
                then kb_statements db
                else kb_statements db @ [stored (new_rowid db) v]),
             sqlite_sequence := new_rowid db\<rparr>"
  from Cons.prems have "insert_values DoNothing vs ?db1 = Inr db'"
    by (simp add: insert_row_DoNothing)
  from Cons.IH[OF this] show ?case by auto
qed

lemma insert_values_distinct:
  "insert_values DoNothing vs db = Inr db' \<Longrightarrow>
     distinct (map kb_statement_unique (kb_statements db)) \<Longrightarrow>
     distinct (map kb_statement_unique (kb_statements db'))"
proof (induction vs arbitrary: db)
  case Nil
  then show ?case by simp
next
  case (Cons v vs)
  let ?db1 = "db\<lparr>kb_statements :=
               (if kb_statement_unique v \<in> set (map kb_statement_unique (kb_statements db))
                then kb_statements db
                else kb_statements db @ [stored (new_rowid db) v]),
             sqlite_sequence := new_rowid db\<rparr>"
  from Cons.prems have 1: "insert_values DoNothing vs ?db1 = Inr db'"
    by (simp add: insert_row_DoNothing)
  have "distinct (map kb_statement_unique (kb_statements ?db1))"
    using Cons.prems(2) by auto
  from Cons.IH[OF 1 this] show ?case .
qed

lemma insert_values_present:
  "set (map kb_statement_unique vs) \<subseteq> set (map kb_statement_unique (kb_statements db)) \<Longrightarrow>
     insert_values DoNothing vs db = Inr db' \<Longrightarrow> kb_statements db' = kb_statements db"
proof (induction vs arbitrary: db)
  case Nil
  then show ?case by simp
next
  case (Cons v vs)
  let ?db1 = "db\<lparr>sqlite_sequence := new_rowid db\<rparr>"
  from Cons.prems have 1: "insert_values DoNothing vs ?db1 = Inr db'"
    by (simp add: insert_row_DoNothing)
  from Cons.prems(1) have "set (map kb_statement_unique vs) \<subseteq> set (map kb_statement_unique (kb_statements ?db1))"
    by simp
  from Cons.IH[OF this 1] show ?case by simp
qed

lemma count_distinct_key:
  "distinct (map f xs) \<Longrightarrow> y \<in> f ` set xs \<Longrightarrow> length (filter (\<lambda>x. f x = y) xs) = 1"
proof (induction xs)
  case Nil
  then show ?case by simp
next
  case (Cons x xs)
  show ?case
  proof (cases "f x = y")
    case True
    with Cons.prems(1) have "filter (\<lambda>x. f x = y) xs = []"
      unfolding filter_empty_conv by (metis distinct.simps(2) imageI list.simps(9) list.set_map)
    with True show ?thesis by simp
  next
    case False
    with Cons show ?thesis by auto
  qed
qed

section \<open>Row order\<close>

lemma foldr_max_ge: "x \<in> set xs \<Longrightarrow> x \<le> foldr max xs (a::int)"
  by (induction xs) auto

lemma new_rowid_greater: "r \<in> set (kb_statements db) \<Longrightarrow> statement_id r < new_rowid db"
  using foldr_max_ge[of "statement_id r" "map statement_id (kb_statements db)" "sqlite_sequence db"]
  by (simp add: new_rowid_def)

lemma insert_values_rowid_order:
  "insert_values DoNothing vs db = Inr db' \<Longrightarrow>
     sorted_wrt (<) (map statement_id (kb_statements db)) \<Longrightarrow>
     sorted_wrt (<) (map statement_id (kb_statements db'))"
proof (induction vs arbitrary: db)
  case Nil
  then show ?case by simp
next
  case (Cons v vs)
  let ?db1 = "db\<lparr>kb_statements :=
               (if kb_statement_unique v \<in> set (map kb_statement_unique (kb_statements db))
                then kb_statements db
                else kb_statements db @ [stored (new_rowid db) v]),
             sqlite_sequence := new_rowid db\<rparr>"
  from Cons.prems have 1: "insert_values DoNothing vs ?db1 = Inr db'"
    by (simp add: insert_row_DoNothing)
  have "sorted_wrt (<) (map statement_id (kb_statements ?db1))"
    using Cons.prems(2) new_rowid_greater[of _ db] by (auto simp: sorted_wrt_append)
  from Cons.IH[OF 1 this] show ?case .
qed

lemma sql_delete_filter: "\<exists>Q. kb_statements (sql_delete P db) = filter Q (kb_statements db)"
  using delete_rowids_filter by (simp add: sql_delete_def)

lemma sql_delete_rowid_order:
  assumes "sorted_wrt (<) (map statement_id (kb_statements db))"
  shows "sorted_wrt (<) (map statement_id (kb_statements (sql_delete P db)))"
proof -
  obtain Q where "kb_statements (sql_delete P db) = filter Q (kb_statements db)"
    using sql_delete_filter by blast
  with assms show ?thesis
    by (simp add: sorted_wrt_map sorted_wrt_filter)
qed

lemma call_store_rowid_order:
  assumes "sorted_wrt (<) (map statement_id (kb_statements db))"
  shows "sorted_wrt (<) (map statement_id (kb_statements (call_store c db)))"
proof (cases c)
  case (AddStatements statements)
  show ?thesis
  proof (cases "addStatements statements db")
    case (Inl e)
    with AddStatements assms show ?thesis by simp
  next
    case (Inr db')
    with assms have "sorted_wrt (<) (map statement_id (kb_statements db'))"
      by (auto simp: addStatements_def split: if_splits dest: insert_values_rowid_order)
    with AddStatements Inr show ?thesis by simp
  qed
next
  case (RemoveStatements graphId)
  with assms show ?thesis
    by (simp add: removeStatements_def sql_delete_rowid_order)
next
  case (RemoveStatement statementId)
  show ?thesis
  proof (cases "removeStatement statementId db")
    case (Inl e)
    with RemoveStatement assms show ?thesis by simp
  next
    case (Inr db')
    from removeStatement_cases[OF this] assms
    have "sorted_wrt (<) (map statement_id (kb_statements db'))"
      by (auto simp: sql_delete_rowid_order)
    with RemoveStatement Inr show ?thesis by simp
  qed
qed

lemma run_rowid_order:
  "sorted_wrt (<) (map statement_id (kb_statements db)) \<Longrightarrow>
     sorted_wrt (<) (map statement_id (kb_statements (run calls db)))"
  unfolding run_def
  by (induction calls arbitrary: db) (simp_all add: call_store_rowid_order)

lemma map_rows_member:
  assumes "map_rows f xs = Inr ys" and "y \<in> set ys"
  shows "\<exists>x \<in> set xs. f x = Inr y"
proof -
  from assms(1) have "map f xs = map Inr ys"
    by (rule map_rows_Inr_D)
  then have "set (map f xs) = set (map Inr ys)"
    by simp
  with assms(2) have "Inr y \<in> f ` set xs"
    by auto
  then show ?thesis by auto
qed

lemma map_rows_image:
  assumes "map_rows f xs = Inr ys" and "x \<in> set xs"
  shows "\<exists>y \<in> set ys. f x = Inr y"
proof -
  from assms(1) have "map f xs = map Inr ys"
    by (rule map_rows_Inr_D)
  then have "set (map f xs) = set (map Inr ys)"
    by simp
  with assms(2) have "f x \<in> Inr ` set ys"
    by auto
  then show ?thesis by auto
qed

section \<open>Graphs\<close>

lemma key_graph: "kb_statement_unique r = kb_statement_unique v \<Longrightarrow> graph r = graph v"
  by (simp add: kb_statement_unique_def)

lemma graph_addStatements_values [simp]: "graph (addStatements_values q) = term_value (q_graph q)"
  by (simp add: addStatements_values_def)

lemma addStatements_other_graph:
  assumes "\<forall>q \<in> set statements. term_value (q_graph q) = g1" and "g2 \<noteq> g1"
    and "addStatements statements db = Inr db'"
  shows "filter (\<lambda>r. graph r = g2) (kb_statements db') = filter (\<lambda>r. graph r = g2) (kb_statements db)"
proof (cases "statements = []")
  case True
  with assms(3) show ?thesis by (simp add: addStatements_def)
next
  case False
  with assms(3) have "insert_values DoNothing (map addStatements_values statements) db = Inr db'"
    by (simp add: addStatements_def)
  from insert_values_appends[OF this] obtain new where
    new: "kb_statements db' = kb_statements db @ new"
      "set (map kb_statement_unique new) \<subseteq> set (map kb_statement_unique (map addStatements_values statements))"
    by blast
  have "graph n = g1" if "n \<in> set new" for n
  proof -
    from that new(2) obtain q where "q \<in> set statements"
      "kb_statement_unique n = kb_statement_unique (addStatements_values q)"
      by auto
    with key_graph[of n "addStatements_values q"] assms(1) show ?thesis by simp
  qed
  with assms(2) have "filter (\<lambda>r. graph r = g2) new = []"
    by (auto simp: filter_empty_conv)
  with new(1) show ?thesis by simp
qed

lemma sql_delete_cause:
  assumes "distinct (map statement_id (kb_statements db))"
    and "r \<in> set (kb_statements db)" and "r \<notin> set (kb_statements (sql_delete P db))"
  shows "P r \<or> cascaded db (sql_delete P db) r"
proof -
  from delete_rowids_cause[OF assms(1,2), of "recursive_triggers db" "rowids P (kb_statements db)"] assms(3)
  consider (sel) "statement_id r \<in> set (rowids P (kb_statements db))"
    | (casc) "cascaded db (sql_delete P db) r"
    by (auto simp: sql_delete_def cascaded_def)
  then show ?thesis
  proof cases
    case sel
    then obtain r' where "r' \<in> set (kb_statements db)" "P r'" "statement_id r' = statement_id r"
      by (auto simp: rowids_def)
    with distinct_id_eq[OF assms(1) _ assms(2)] show ?thesis by auto
  next
    case casc
    then show ?thesis ..
  qed
qed

section \<open>Literals\<close>

lemma rdf_data_factory_simps [simp]:
  "namedNode rdf_data_factory v = Inr (NamedNode v)"
  "blankNode rdf_data_factory v = Inr (BlankNode v)"
  "literal rdf_data_factory v (Inl l) = Inr (Literal v l rdf_langString)"
  "literal rdf_data_factory v (Inr t) = Inr (Literal v [] (term_value t))"
  by (simp_all add: rdf_data_factory_def)

lemma literal_object_rdfjs:
  assumes "rdfjs_factory df" and "term_type row = ''Literal''"
    and "getStatements_object df row = Inr t"
  shows "t = (if object_language row \<noteq> []
              then Literal (object row) (object_language row) rdf_langString
              else Literal (object row) [] (object_datatype row))"
proof (cases "object_language row = []")
  case True
  with assms(2,3) obtain n where n: "namedNode df (object_datatype row) = Inr n"
    "literal df (object row) (Inr n) = Inr t"
    by (auto simp: getStatements_object_def languageOrDatatype_def split: sum.splits)
  with assms(1) have "n = NamedNode (object_datatype row)"
    by (simp add: rdfjs_factory_def)
  with n(2) assms(1) have "t = Literal (object row) [] (object_datatype row)"
    by (simp add: rdfjs_factory_def)
  with True show ?thesis by simp
next
  case False
  with assms(2,3) have "literal df (object row) (Inl (object_language row)) = Inr t"
    by (auto simp: getStatements_object_def languageOrDatatype_def split: sum.splits)
  with assms(1) have "t = Literal (object row) (object_language row) rdf_langString"
    by (simp add: rdfjs_factory_def)
  with False show ?thesis by simp
qed

section \<open>Round trip\<close>

lemma object_cong:
  assumes "kb_statement_unique r = kb_statement_unique v"
  shows "getStatements_object df r = getStatements_object df v"
    and "getStatement_object df r = getStatement_object df v"
  using assms
  by (auto simp: getStatements_object_def getStatement_object_def languageOrDatatype_def
      kb_statement_unique_def split: sum.splits)

lemma quad_of_row_cong:
  assumes "kb_statement_unique r = kb_statement_unique v"
  shows "quad_of_row df getStatements_object r = quad_of_row df getStatements_object v"
    and "quad_of_row df getStatement_object r = quad_of_row df getStatement_object v"
  using assms object_cong[OF assms, of df]
  by (auto simp: quad_of_row_def kb_statement_unique_def split: sum.splits)

lemma storable_object:
  assumes "storable q" and "rdfjs_factory df"
  shows "getStatements_object df (addStatements_values q) = Inr t \<Longrightarrow> t = q_object q"
    and "getStatement_object df (addStatements_values q) = Inr t \<Longrightarrow> t = q_object q"
  using assms
  by (cases "q_object q";
      auto simp: storable_def getStatements_object_def getStatement_object_def languageOrDatatype_def
        addStatements_values_def rdfjs_factory_def split: sum.splits if_splits)+

lemma storable_object_reference:
  assumes "storable q"
  shows "getStatements_object rdf_data_factory (addStatements_values q) = Inr (q_object q)"
    and "getStatement_object rdf_data_factory (addStatements_values q) = Inr (q_object q)"
  using assms
  by (cases "q_object q";
      auto simp: storable_def getStatements_object_def getStatement_object_def languageOrDatatype_def
        addStatements_values_def)+

lemma termType_NamedNode: "termType t = ''NamedNode'' \<Longrightarrow> t = NamedNode (term_value t)"
  by (cases t) auto

lemma storable_quad:
  assumes "storable q"
  shows "Quad (NamedNode (subject (addStatements_values q))) (NamedNode (predicate (addStatements_values q)))
           (q_object q) (NamedNode (graph (addStatements_values q))) = q"
  using assms termType_NamedNode[of "q_subject q"] termType_NamedNode[of "q_predicate q"]
    termType_NamedNode[of "q_graph q"]
  by (cases q) (simp add: storable_def addStatements_values_def)

lemma storable_quad_of_row:
  assumes "storable q" and "rdfjs_factory df"
  shows "quad_of_row df getStatements_object (addStatements_values q) = Inr q' \<Longrightarrow> q' = q"
    and "quad_of_row df getStatement_object (addStatements_values q) = Inr q' \<Longrightarrow> q' = q"
proof -
  assume a: "quad_of_row df getStatements_object (addStatements_values q) = Inr q'"
  from quad_of_row_Inr[OF assms(2) a] storable_object(1)[OF assms, of "q_object q'"]
    storable_quad[OF assms(1)]
  show "q' = q" by simp
next
  assume a: "quad_of_row df getStatement_object (addStatements_values q) = Inr q'"
  from quad_of_row_Inr[OF assms(2) a] storable_object(2)[OF assms, of "q_object q'"]
    storable_quad[OF assms(1)]
  show "q' = q" by simp
qed

lemma storable_quad_of_row_reference:
  assumes "storable q"
  shows "quad_of_row rdf_data_factory getStatements_object (addStatements_values q) = Inr q"
    and "quad_of_row rdf_data_factory getStatement_object (addStatements_values q) = Inr q"
  using storable_object_reference[OF assms] storable_quad[OF assms]
  by (simp_all add: quad_of_row_def)

lemma reference_object_returns:
  "\<exists>t. getStatements_object rdf_data_factory row = Inr t"
  by (simp add: getStatements_object_def languageOrDatatype_def)

lemma reference_quad_returns:
  "\<exists>q. quad_of_row rdf_data_factory getStatements_object row = Inr q"
  using reference_object_returns[of row] by (auto simp: quad_of_row_def)

lemma map_rows_returns:
  "(\<And>x. \<exists>y. f x = Inr y) \<Longrightarrow> \<exists>ys. map_rows f xs = Inr ys"
proof (induction xs)
  case Nil
  then show ?case by simp
next
  case (Cons x xs)
  then obtain y ys where "f x = Inr y" "map_rows f xs = Inr ys"
    by blast
  then show ?case by simp
qed

lemma getStatements_reference_returns:
  "\<exists>quads. getStatements rdf_data_factory graphId db = Inr quads"
  unfolding getStatements_def using reference_quad_returns by (rule map_rows_returns)

lemma addStatements_row:
  assumes "q \<in> set statements" and "addStatements statements db = Inr db'"
  shows "\<exists>r \<in> set (kb_statements db'). kb_statement_unique r = kb_statement_unique (addStatements_values q)"
proof -
  from assms have "insert_values DoNothing (map addStatements_values statements) db = Inr db'"
    by (auto simp: addStatements_def split: if_splits)
  from insert_values_keys[OF this] assms(1)
  have "kb_statement_unique (addStatements_values q) \<in> set (map kb_statement_unique (kb_statements db'))"
    by auto
  then show ?thesis by auto
qed

lemma filter_distinct_id:
  "distinct (map statement_id tbl) \<Longrightarrow> r \<in> set tbl \<Longrightarrow>
     filter (\<lambda>x. statement_id x = statement_id r) tbl = [r]"
proof (induction tbl)
  case Nil
  then show ?case by simp
next
  case (Cons a tbl)
  from Cons.prems(1) have fresh: "statement_id a \<notin> statement_id ` set tbl" and d: "distinct (map statement_id tbl)"
    by simp_all
  show ?case
  proof (cases "a = r")
    case True
    have "filter (\<lambda>x. statement_id x = statement_id r) tbl = []"
      unfolding filter_empty_conv using fresh True by (metis imageI)
    with True show ?thesis by simp
  next
    case False
    with Cons.prems(2) have r: "r \<in> set tbl" by simp
    with fresh have "statement_id a \<noteq> statement_id r" by (metis imageI)
    with Cons.IH[OF d r] show ?thesis by simp
  qed
qed

lemma getStatements_contains:
  assumes "storable q" and "rdfjs_factory df"
    and "q \<in> set statements" and "addStatements statements db = Inr db'"
    and "getStatements df (term_value (q_graph q)) db' = Inr quads"
  shows "q \<in> set quads"
proof -
  from addStatements_row[OF assms(3,4)] obtain r where
    r: "r \<in> set (kb_statements db')" "kb_statement_unique r = kb_statement_unique (addStatements_values q)"
    by blast
  then have "graph r = term_value (q_graph q)"
    using key_graph[of r "addStatements_values q"] by simp
  with r(1) have "r \<in> set (getStatements_rows (term_value (q_graph q)) db')"
    by (simp add: getStatements_rows_def)
  from map_rows_image[OF assms(5)[unfolded getStatements_def] this]
  obtain y where y: "y \<in> set quads" "quad_of_row df getStatements_object r = Inr y"
    by blast
  from y(2) quad_of_row_cong(1)[OF r(2), of df]
  have "quad_of_row df getStatements_object (addStatements_values q) = Inr y"
    by simp
  with storable_quad_of_row(1)[OF assms(1,2)] have "y = q" .
  with y(1) show ?thesis by simp
qed

lemma getStatement_finds:
  assumes "storable q" and "q \<in> set statements" and "addStatements statements db = Inr db'"
    and "distinct (map statement_id (kb_statements db'))"
  shows "\<exists>r \<in> set (kb_statements db'). \<forall>statementId.
           parseInt statementId = Finite (statement_id r) \<longrightarrow>
           getStatement rdf_data_factory statementId db' = Inr (Some q)"
proof -
  from addStatements_row[OF assms(2,3)] obtain r where
    r: "r \<in> set (kb_statements db')" "kb_statement_unique r = kb_statement_unique (addStatements_values q)"
    by blast
  have q: "quad_of_row rdf_data_factory getStatement_object r = Inr q"
    using quad_of_row_cong(2)[OF r(2)] storable_quad_of_row_reference(2)[OF assms(1)] by simp
  have sel: "filter (\<lambda>x. statement_id x = statement_id r) (kb_statements db') = [r]"
    using filter_distinct_id[OF assms(4) r(1)] by simp
  have "getStatement rdf_data_factory statementId db' = Inr (Some q)"
    if "parseInt statementId = Finite (statement_id r)" for statementId
    using that sel q by (simp add: getStatement_def valueToSql_def isNaN_def)
  with r(1) show ?thesis by blast
qed

section \<open>Lookup by id\<close>

text \<open>
  \<open>getStatement\<close> returns \<open>null\<close> for an id that \<open>parseInt\<close> cannot read and for a finite
  id that no row has.
\<close>

lemma getStatement_null:
  "isNaN (parseInt statementId) \<Longrightarrow> getStatement df statementId db = Inr None"
  "parseInt statementId = Finite n \<Longrightarrow> n \<notin> statement_id ` set (kb_statements db) \<Longrightarrow>
     getStatement df statementId db = Inr None"
proof -
  show "getStatement df statementId db = Inr None" if "isNaN (parseInt statementId)"
    using that by (simp add: getStatement_def)
  assume "parseInt statementId = Finite n" and "n \<notin> statement_id ` set (kb_statements db)"
  moreover from this(2) have "filter (\<lambda>r. statement_id r = n) (kb_statements db) = []"
    by (auto simp: filter_empty_conv)
  ultimately show "getStatement df statementId db = Inr None"
    by (simp add: getStatement_def valueToSql_def isNaN_def)
qed

text \<open>
  An integer of magnitude \<open>2^1024\<close> or more is \<open>Infinity\<close> as a number, and so is what
  \<open>parseInt\<close> reads from the digits of one.
\<close>

lemma bit_width_bounds:
  "0 < a \<Longrightarrow> 2 ^ (bit_width a - 1) \<le> a \<and> a < 2 ^ bit_width a"
proof (induction a rule: bit_width.induct)
  case (1 a)
  show ?case
  proof (cases "a div 2 = 0")
    case True
    with 1(2) have "a = 1" by linarith
    then show ?thesis
      by (simp add: bit_width.simps[of 1] bit_width.simps[of 0])
  next
    case False
    with 1(2) have pos: "0 < a div 2" by linarith
    from 1(1)[OF _ pos] 1(2)
    have ih: "2 ^ (bit_width (a div 2) - 1) \<le> a div 2" "a div 2 < 2 ^ bit_width (a div 2)"
      by simp_all
    have w: "bit_width a = Suc (bit_width (a div 2))"
      using 1(2) by (simp add: bit_width.simps[of a])
    have p: "0 < bit_width (a div 2)"
      using pos by (simp add: bit_width.simps[of "a div 2"])
    then have "(2 :: int) ^ bit_width (a div 2) = 2 * 2 ^ (bit_width (a div 2) - 1)"
      by (cases "bit_width (a div 2)") simp_all
    with ih show ?thesis
      unfolding w by (simp, linarith)
  qed
qed

lemma bit_width_greater:
  assumes "2 ^ N \<le> a"
  shows "N < bit_width a"
proof -
  have "(0 :: int) < 2 ^ N" by simp
  with assms have "0 < a" by linarith
  from bit_width_bounds[OF this] assms have "(2 :: int) ^ N < 2 ^ bit_width a"
    by linarith
  then show ?thesis
    by (simp add: power_strict_increasing_iff)
qed

lemma rounded_magnitude:
  assumes "2 ^ N \<le> a" and "K \<le> N" and "a div 2 ^ (bit_width a - Suc K) \<le> m"
  shows "2 ^ N \<le> m * 2 ^ (bit_width a - Suc K)"
proof -
  define e where "e = bit_width a - Suc K"
  have "(0 :: int) < 2 ^ N" by simp
  with assms(1) have pos: "0 < a" by linarith
  from bit_width_greater[OF assms(1)] assms(2) have w: "N \<le> K + e" "bit_width a - 1 = K + e"
    by (simp_all add: e_def)
  from bit_width_bounds[OF pos] have "(2 :: int) ^ (K + e) \<le> a"
    unfolding w(2) by blast
  then have "(2 :: int) ^ K * 2 ^ e div 2 ^ e \<le> a div 2 ^ e"
    unfolding power_add by (intro zdiv_mono1) simp_all
  then have "(2 :: int) ^ K \<le> a div 2 ^ e"
    by simp
  with assms(3) have "(2 :: int) ^ K \<le> m"
    by (simp add: e_def)
  then have "(2 :: int) ^ K * 2 ^ e \<le> m * 2 ^ e"
    by (intro mult_right_mono) simp_all
  moreover have "(2 :: int) ^ N \<le> 2 ^ (K + e)"
    using w(1) by (intro power_increasing) simp_all
  ultimately show ?thesis
    unfolding e_def[symmetric] power_add by linarith
qed

lemma to_Number_Infinity:
  assumes "2 ^ 1024 \<le> \<bar>n\<bar>"
  shows "to_Number n = Infinity"
proof -
  define a where "a = \<bar>n\<bar>"
  define e where "e = bit_width a - 53"
  define q where "q = a div 2 ^ e"
  define m where "m = (if 2 ^ (e - 1) < a mod 2 ^ e \<or> (a mod 2 ^ e = 2 ^ (e - 1) \<and> odd q) then q + 1 else q)"
  from assms have big: "(2 :: int) ^ 1024 \<le> a" by (simp add: a_def)
  have "q \<le> m" by (simp add: m_def)
  then have "a div 2 ^ (bit_width a - Suc 52) \<le> m" by (simp add: q_def e_def)
  from rounded_magnitude[OF big _ this] have "(2 :: int) ^ 1024 \<le> m * 2 ^ e"
    by (simp add: e_def)
  moreover from big have "\<not> a < 2 ^ 53"
    by simp
  ultimately show ?thesis
    unfolding to_Number_def Let_def a_def[symmetric] e_def[symmetric] q_def[symmetric] m_def[symmetric]
    by simp
qed

lemma parseInt_digits:
  assumes "TrimStart s = s" and "take 1 s \<noteq> ''-''" and "take 1 s \<noteq> ''+''"
    and "take 2 s \<noteq> ''0x''" and "take 2 s \<noteq> ''0X''"
    and "takeWhile (\<lambda>c. digit_value 10 c \<noteq> None) s = s" and "s \<noteq> []"
  shows "parseInt s =
    to_Number (foldl (\<lambda>a c. case digit_value 10 c of Some d \<Rightarrow> a * int 10 + int d | None \<Rightarrow> a) 0 s)"
  using assms unfolding parseInt_def Let_def
  by (simp del: not_None_eq takeWhile_eq_all_conv)

lemma digits_number:
  assumes "digit_value 10 c = Some d"
  shows "foldl (\<lambda>a c. case digit_value 10 c of Some d \<Rightarrow> a * int 10 + int d | None \<Rightarrow> a) x
     (c # replicate n (CHR ''0'')) = (x * 10 + int d) * 10 ^ n"
proof -
  have "foldl (\<lambda>a c. case digit_value 10 c of Some d \<Rightarrow> a * int 10 + int d | None \<Rightarrow> a) y
     (replicate n (CHR ''0'')) = y * 10 ^ n" for y
    by (induction n arbitrary: y) (simp_all add: digit_value_def)
  with assms show ?thesis by simp
qed

lemma TrimStart_infinite_id: "TrimStart infinite_id = infinite_id"
  by (subst TrimStart.simps) (simp add: infinite_id_def StrWhiteSpaceChar_def)

lemma infinite_id_digits:
  "takeWhile (\<lambda>c. digit_value 10 c \<noteq> None) infinite_id = infinite_id"
  by (simp add: infinite_id_def digit_value_def)

lemma parseInt_infinite_id: "parseInt infinite_id = Infinity"
proof -
  have s: "take 1 infinite_id = ''1''" "take 2 infinite_id = ''10''" "infinite_id \<noteq> []"
    by (simp_all add: infinite_id_def)
  have "digit_value 10 (CHR ''1'') = Some 1"
    by (simp add: digit_value_def)
  then have "foldl (\<lambda>a c. case digit_value 10 c of Some d \<Rightarrow> a * int 10 + int d | None \<Rightarrow> a) 0
      infinite_id = (0 * 10 + int 1) * 10 ^ 309"
    unfolding infinite_id_def by (rule digits_number)
  with parseInt_digits[OF TrimStart_infinite_id _ _ _ _ infinite_id_digits s(3)] s
  have "parseInt infinite_id = to_Number (10 ^ 309)"
    by simp
  also have "\<dots> = Infinity"
    by (rule to_Number_Infinity) simp
  finally show ?thesis .
qed

section \<open>Ranking\<close>

lemma rank_scores_ids: "fst ` set (rank_scores k r l) = set l"
  by (induction l arbitrary: r) auto

lemma rank_scores_absent:
  "c \<notin> set l \<Longrightarrow> filter (\<lambda>row. fst row = c) (rank_scores k r l) = []"
  by (induction l arbitrary: r) auto

lemma rank_scores_sum:
  "distinct l \<Longrightarrow>
     sum_list (map snd (filter (\<lambda>row. fst row = c) (rank_scores k r l))) =
       (if c \<in> set l then 1 / (k + of_nat (r + length (takeWhile (\<lambda>x. x \<noteq> c) l))) else 0)"
proof (induction l arbitrary: r)
  case Nil
  then show ?case by simp
next
  case (Cons a l)
  show ?case
  proof (cases "a = c")
    case True
    with Cons.prems have "c \<notin> set l" by simp
    then have "filter (\<lambda>row. fst row = c) (rank_scores k (Suc r) l) = []"
      by (rule rank_scores_absent)
    with True show ?thesis by simp
  next
    case False
    from Cons.prems have "distinct l" by simp
    from Cons.IH[OF this, of "Suc r"] False show ?thesis by simp
  qed
qed

lemma rrf_score_combined:
  assumes "distinct fts" and "distinct vec"
  shows "rrf_score (combined_scores k fts vec) c = contribution k fts c + contribution k vec c"
  using rank_scores_sum[OF assms(1), of c k 1] rank_scores_sum[OF assms(2), of c k 1]
  by (simp add: rrf_score_def combined_scores_def contribution_def)

lemma combined_scores_ids: "fst ` set (combined_scores k fts vec) = set fts \<union> set vec"
  by (simp add: combined_scores_def image_Un rank_scores_ids)

lemma rrf_groups_ids:
  "map fst (rrf_groups kb_chunks s) = filter (\<lambda>i. i \<in> fst ` set s) (map chunk_id kb_chunks)"
  by (simp add: rrf_groups_def filter_map comp_def)

lemma rrf_groups_member:
  "e \<in> set (rrf_groups kb_chunks s) \<Longrightarrow>
     \<exists>c \<in> set kb_chunks. chunk_id c \<in> fst ` set s \<and>
        e = (chunk_id c, chunk_statement_id c, rrf_score s (chunk_id c))"
  by (auto simp: rrf_groups_def)

lemma rrf_groups_facts:
  fixes k :: rat
  assumes "distinct fts" and "distinct vec" and "distinct (map chunk_id kb_chunks)"
    and "set fts \<union> set vec \<subseteq> chunk_id ` set kb_chunks"
  defines "groups \<equiv> rrf_groups kb_chunks (combined_scores k fts vec)"
  shows "\<forall>e \<in> set groups. \<exists>c \<in> set kb_chunks.
           fst e = chunk_id c \<and> fst (snd e) = chunk_statement_id c \<and>
           snd (snd e) = contribution k fts (fst e) + contribution k vec (fst e)"
    and "fst ` set groups = set fts \<union> set vec"
    and "distinct (map fst groups)"
proof -
  let ?s = "combined_scores k fts vec"
  show "\<forall>e \<in> set groups. \<exists>c \<in> set kb_chunks.
           fst e = chunk_id c \<and> fst (snd e) = chunk_statement_id c \<and>
           snd (snd e) = contribution k fts (fst e) + contribution k vec (fst e)"
  proof
    fix e
    assume "e \<in> set groups"
    then have "e \<in> set (rrf_groups kb_chunks ?s)" by (simp add: groups_def)
    from rrf_groups_member[OF this] obtain c where
      c: "c \<in> set kb_chunks"
        "e = (chunk_id c, chunk_statement_id c, rrf_score ?s (chunk_id c))"
      by blast
    with rrf_score_combined[OF assms(1,2), of k "chunk_id c"]
    show "\<exists>c \<in> set kb_chunks.
           fst e = chunk_id c \<and> fst (snd e) = chunk_statement_id c \<and>
           snd (snd e) = contribution k fts (fst e) + contribution k vec (fst e)"
      by (intro bexI[of _ c]) simp_all
  qed
  have ids: "map fst groups = filter (\<lambda>i. i \<in> set fts \<union> set vec) (map chunk_id kb_chunks)"
    by (simp add: groups_def rrf_groups_ids combined_scores_ids)
  have "fst ` set groups = set (map fst groups)"
    by simp
  also have "\<dots> = {i \<in> chunk_id ` set kb_chunks. i \<in> set fts \<union> set vec}"
    unfolding ids by auto
  also have "\<dots> = set fts \<union> set vec"
    using assms(4) by auto
  finally show "fst ` set groups = set fts \<union> set vec" .
  show "distinct (map fst groups)"
    unfolding ids using assms(3) by (rule distinct_filter)
qed

lemma rrf_query_returns:
  "rrf_query kb_chunks s (sort_key (\<lambda>e. - snd (snd e)) (rrf_groups kb_chunks s))"
proof -
  let ?f = "\<lambda>e :: int \<times> int option \<times> rat. - snd (snd e)"
  have "sorted (map ?f (sort_key ?f (rrf_groups kb_chunks s)))"
    by (rule sorted_sort_key)
  then have "sorted_wrt (\<lambda>a b. snd (snd b) \<le> snd (snd a)) (sort_key ?f (rrf_groups kb_chunks s))"
    by (simp add: sorted_map)
  then show ?thesis
    by (simp add: rrf_query_def)
qed

lemma rrf_query_set:
  assumes "rrf_query kb_chunks s res"
  shows "set res = set (rrf_groups kb_chunks s)"
    and "distinct (map fst res) \<longleftrightarrow> distinct (map fst (rrf_groups kb_chunks s))"
proof -
  from assms have m: "mset res = mset (rrf_groups kb_chunks s)"
    by (simp add: rrf_query_def)
  then show "set res = set (rrf_groups kb_chunks s)"
    by (rule mset_eq_setD)
  from m have "mset (map fst res) = mset (map fst (rrf_groups kb_chunks s))"
    by simp
  then show "distinct (map fst res) \<longleftrightarrow> distinct (map fst (rrf_groups kb_chunks s))"
    by (rule mset_eq_imp_distinct_iff)
qed

lemma sorted_arrangement_unique:
  fixes f :: "'a \<Rightarrow> 'b :: linorder"
  assumes "mset xs = mset ys" and "sorted (map f xs)" and "sorted (map f ys)"
    and "inj_on f (set ys)"
  shows "xs = ys"
proof -
  from assms(1) have "mset (map f xs) = mset (map f ys)"
    by simp
  from properties_for_sort[OF this assms(2)] have "sort (map f ys) = map f xs" .
  with sorted_sort_id[OF assms(3)] have eq: "map f xs = map f ys"
    by simp
  from assms(1) have "set xs = set ys"
    by (rule mset_eq_setD)
  with assms(4) have "inj_on f (set xs \<union> set ys)"
    by simp
  from inj_on_map_eq_map[OF this] eq show ?thesis
    by simp
qed

lemma xyz_groups:
  "rrf_groups xyz_chunks (combined_scores 60 [1, 2] [2, 3]) =
     [(1, Some 11, 1 / 61), (2, Some 12, 123 / 3782), (3, Some 13, 1 / 62)]"
  by (simp add: xyz_chunks_def rrf_groups_def rrf_score_def combined_scores_def)

lemma xyz_query:
  "rrf_query xyz_chunks (combined_scores 60 [1, 2] [2, 3]) res \<longleftrightarrow>
     res = [(2, Some 12, 123 / 3782), (1, Some 11, 1 / 61), (3, Some 13, 1 / 62)]"
proof
  let ?f = "\<lambda>e :: int \<times> int option \<times> rat. - snd (snd e)"
  let ?ys = "[(2, Some 12, 123 / 3782), (1, Some 11, 1 / 61), (3, Some 13, 1 / 62)]
    :: (int \<times> int option \<times> rat) list"
  assume "rrf_query xyz_chunks (combined_scores 60 [1, 2] [2, 3]) res"
  then have "mset res = mset ?ys" and "sorted (map ?f res)"
    by (simp_all add: rrf_query_def xyz_groups sorted_map)
  moreover have "sorted (map ?f ?ys)" and "inj_on ?f (set ?ys)"
    by simp_all
  ultimately show "res = ?ys"
    by (rule sorted_arrangement_unique)
next
  assume "res = [(2, Some 12, 123 / 3782), (1, Some 11, 1 / 61), (3, Some 13, 1 / 62)]"
  then show "rrf_query xyz_chunks (combined_scores 60 [1, 2] [2, 3]) res"
    by (simp add: rrf_query_def xyz_groups)
qed

section \<open>Claims\<close>

text \<open>
  C1, as stated, fails: a row keeps the values of subject, predicate and graph but not
  their kinds, and reading builds all three with \<open>namedNode\<close>. A quad with a blank node
  as subject, in the default graph, comes back with two named nodes in their places.
\<close>

theorem blank_subject_not_round_tripped:
  "addStatements [blank_subject_quad] (empty_database True) = Inr blank_subject_row \<and>
   getStatements rdf_data_factory [] blank_subject_row =
     Inr [Quad (NamedNode ''b1'') (NamedNode ''http://example.org/q'')
            (Literal ''leaf'' [] xsd_string) (NamedNode [])] \<and>
   getStatement rdf_data_factory ''1'' blank_subject_row =
     Inr (Some (Quad (NamedNode ''b1'') (NamedNode ''http://example.org/q'')
                  (Literal ''leaf'' [] xsd_string) (NamedNode []))) \<and>
   Quad (NamedNode ''b1'') (NamedNode ''http://example.org/q'')
     (Literal ''leaf'' [] xsd_string) (NamedNode []) \<noteq> blank_subject_quad"
proof (intro conjI)
  show "addStatements [blank_subject_quad] (empty_database True) = Inr blank_subject_row"
    by (simp add: blank_subject_quad_def blank_subject_row_def insert_eval xsd_string_def)
  show "getStatements rdf_data_factory [] blank_subject_row =
     Inr [Quad (NamedNode ''b1'') (NamedNode ''http://example.org/q'')
            (Literal ''leaf'' [] xsd_string) (NamedNode [])]"
    by (simp add: blank_subject_row_def select_eval xsd_string_def)
  show "getStatement rdf_data_factory ''1'' blank_subject_row =
     Inr (Some (Quad (NamedNode ''b1'') (NamedNode ''http://example.org/q'')
                  (Literal ''leaf'' [] xsd_string) (NamedNode [])))"
    by (simp add: blank_subject_row_def select_eval parse_eval xsd_string_def)
  show "Quad (NamedNode ''b1'') (NamedNode ''http://example.org/q'')
     (Literal ''leaf'' [] xsd_string) (NamedNode []) \<noteq> blank_subject_quad"
    by (simp add: blank_subject_quad_def)
qed

text \<open>
  C1, amended. For a quad whose subject, predicate and graph are named nodes and whose
  object is a named node or a literal (with the datatype \<open>rdf:langString\<close> when it has a
  language), reading inverts writing. With a factory that follows the RDF/JS interface,
  the conversion of \<open>getStatements\<close> and that of \<open>getStatement\<close>, applied to the row of the
  quad, give the quad back whenever they return, and with the reference factory they
  return. After \<open>addStatements\<close> of a batch holding the quad, \<open>getStatements\<close> for its
  graph holds the quad, and on a table with unique ids \<open>getStatement\<close> returns it for the
  id of its row.
\<close>

theorem storable_round_trip:
  "storable q \<longrightarrow>
     (rdfjs_factory df \<longrightarrow>
        (\<forall>q'. quad_of_row df getStatements_object (addStatements_values q) = Inr q' \<longrightarrow> q' = q) \<and>
        (\<forall>q'. quad_of_row df getStatement_object (addStatements_values q) = Inr q' \<longrightarrow> q' = q)) \<and>
     quad_of_row rdf_data_factory getStatements_object (addStatements_values q) = Inr q \<and>
     quad_of_row rdf_data_factory getStatement_object (addStatements_values q) = Inr q \<and>
     (q \<in> set statements \<and> addStatements statements db = Inr db' \<longrightarrow>
        (rdfjs_factory df \<longrightarrow>
           (\<forall>quads. getStatements df (term_value (q_graph q)) db' = Inr quads \<longrightarrow> q \<in> set quads)) \<and>
        (\<exists>quads. getStatements rdf_data_factory (term_value (q_graph q)) db' = Inr quads \<and>
                  q \<in> set quads) \<and>
        (distinct (map statement_id (kb_statements db')) \<longrightarrow>
           (\<exists>r \<in> set (kb_statements db'). \<forall>statementId.
              parseInt statementId = Finite (statement_id r) \<longrightarrow>
              getStatement rdf_data_factory statementId db' = Inr (Some q))))"
proof (intro impI conjI allI)
  fix q'
  assume "storable q" "rdfjs_factory df"
    "quad_of_row df getStatements_object (addStatements_values q) = Inr q'"
  then show "q' = q" by (rule storable_quad_of_row(1))
next
  fix q'
  assume "storable q" "rdfjs_factory df"
    "quad_of_row df getStatement_object (addStatements_values q) = Inr q'"
  then show "q' = q" by (rule storable_quad_of_row(2))
next
  assume "storable q"
  then show "quad_of_row rdf_data_factory getStatements_object (addStatements_values q) = Inr q"
    by (rule storable_quad_of_row_reference(1))
next
  assume "storable q"
  then show "quad_of_row rdf_data_factory getStatement_object (addStatements_values q) = Inr q"
    by (rule storable_quad_of_row_reference(2))
next
  fix quads
  assume "storable q" "q \<in> set statements \<and> addStatements statements db = Inr db'"
    "rdfjs_factory df" "getStatements df (term_value (q_graph q)) db' = Inr quads"
  then show "q \<in> set quads"
    using getStatements_contains[of q df statements db db' quads] by blast
next
  assume a: "storable q" "q \<in> set statements \<and> addStatements statements db = Inr db'"
  obtain quads where quads: "getStatements rdf_data_factory (term_value (q_graph q)) db' = Inr quads"
    using getStatements_reference_returns by blast
  with a getStatements_contains[of q rdf_data_factory statements db db' quads]
    rdfjs_factory_rdf_data_factory
  have "q \<in> set quads" by blast
  with quads show "\<exists>quads. getStatements rdf_data_factory (term_value (q_graph q)) db' = Inr quads \<and>
                  q \<in> set quads" by blast
next
  assume "storable q" "q \<in> set statements \<and> addStatements statements db = Inr db'"
    "distinct (map statement_id (kb_statements db'))"
  then show "\<exists>r \<in> set (kb_statements db'). \<forall>statementId.
              parseInt statementId = Finite (statement_id r) \<longrightarrow>
              getStatement rdf_data_factory statementId db' = Inr (Some q)"
    using getStatement_finds[of q statements db db'] by blast
qed

theorem storable_round_trip_witness:
  "storable leaf_quad \<and> rdfjs_factory rdf_data_factory \<and> leaf_quad \<in> set [leaf_quad] \<and>
   addStatements [leaf_quad] (empty_database True) = Inr one_row \<and>
   distinct (map statement_id (kb_statements one_row)) \<and>
   getStatements rdf_data_factory ''http://example.org/g'' one_row = Inr [leaf_quad] \<and>
   parseInt ''1'' = Finite 1 \<and>
   getStatement rdf_data_factory ''1'' one_row = Inr (Some leaf_quad)"
proof -
  have h1: "storable leaf_quad"
    by (simp add: storable_def leaf_quad_def)
  have h2: "rdfjs_factory rdf_data_factory"
    by (rule rdfjs_factory_rdf_data_factory)
  have h3: "leaf_quad \<in> set [leaf_quad]"
    by simp
  have h4: "addStatements [leaf_quad] (empty_database True) = Inr one_row"
    by (simp add: leaf_quad_def one_row_def insert_eval)
  have h5: "distinct (map statement_id (kb_statements one_row))"
    by (simp add: one_row_def)
  have h6: "term_value (q_graph leaf_quad) = ''http://example.org/g''"
    by (simp add: leaf_quad_def)
  have h7: "parseInt ''1'' = Finite 1"
    by (simp add: parse_eval)
  note rt = storable_round_trip[of leaf_quad rdf_data_factory "[leaf_quad]" "empty_database True" one_row]
  from rt h1 h3 h4
  have "\<exists>quads. getStatements rdf_data_factory (term_value (q_graph leaf_quad)) one_row = Inr quads
          \<and> leaf_quad \<in> set quads"
    by blast
  then obtain quads where
    quads: "getStatements rdf_data_factory ''http://example.org/g'' one_row = Inr quads"
      "leaf_quad \<in> set quads"
    unfolding h6 by blast
  have "map (quad_of_row rdf_data_factory getStatements_object)
          (getStatements_rows ''http://example.org/g'' one_row) = map Inr quads"
    using quads(1) unfolding getStatements_def by (rule map_rows_Inr_D)
  then have "length (getStatements_rows ''http://example.org/g'' one_row) = length quads"
    by (metis length_map)
  then have "length quads = 1"
    by (simp add: getStatements_rows_def one_row_def)
  with quads(2) have q1: "quads = [leaf_quad]"
    by (cases quads) auto
  from rt h1 h3 h4 h5
  have "\<exists>r \<in> set (kb_statements one_row). \<forall>statementId.
          parseInt statementId = Finite (statement_id r) \<longrightarrow>
          getStatement rdf_data_factory statementId one_row = Inr (Some leaf_quad)"
    by blast
  then obtain r where
    r: "r \<in> set (kb_statements one_row)"
      "\<forall>statementId. parseInt statementId = Finite (statement_id r) \<longrightarrow>
          getStatement rdf_data_factory statementId one_row = Inr (Some leaf_quad)"
    by blast
  from r(1) have "statement_id r = 1"
    by (auto simp: one_row_def)
  with r(2) h7 have "getStatement rdf_data_factory ''1'' one_row = Inr (Some leaf_quad)"
    by simp
  with h1 h2 h3 h4 h5 h7 quads(1) q1 show ?thesis by simp
qed

text \<open>
  C2, as stated, fails: the trigger's delete is \<open>WHERE subject = old.object\<close>, with no
  condition on the graph. In a table that two graphs share, with the same texts in both,
  removing the statements of the first graph takes along the row of the second graph
  whose subject is the blank node.
\<close>

theorem cascade_crosses_graphs:
  "addStatements two_graphs_quads (empty_database True) = Inr two_graphs \<and>
   map statement_id (getStatements_rows ''http://example.org/g2'' two_graphs) = [3, 4] \<and>
   map statement_id
     (getStatements_rows ''http://example.org/g2''
        (removeStatements ''http://example.org/g1'' two_graphs)) = [3]"
  by (simp add: two_graphs_quads_def two_graphs_def insert_eval xsd_string_def
      getStatements_rows_def delete_eval)

text \<open>
  C2, amended. \<open>getStatements\<close> for a graph reads the rows of that graph only: its result
  is the same on the table cut down to the graph. \<open>addStatements\<close> of quads of one graph
  leaves the rows of every other graph as they were. \<open>removeStatements\<close> and
  \<open>removeStatement\<close> change no row and only delete; a row they delete is a row of the
  graph (of the id), or it went with the cascade, which is not held to the graph. (A
  \<open>removeStatement\<close> that throws has deleted nothing.)
\<close>

theorem graph_scope_up_to_cascade:
  "getStatements df g1 db =
     getStatements df g1 (db\<lparr>kb_statements := filter (\<lambda>r. graph r = g1) (kb_statements db)\<rparr>) \<and>
   ((\<forall>q \<in> set statements. term_value (q_graph q) = g1) \<and> g2 \<noteq> g1 \<and>
      addStatements statements db = Inr db' \<longrightarrow>
      filter (\<lambda>r. graph r = g2) (kb_statements db') = filter (\<lambda>r. graph r = g2) (kb_statements db)) \<and>
   (distinct (map statement_id (kb_statements db)) \<longrightarrow>
      (\<exists>Q. kb_statements (removeStatements g1 db) = filter Q (kb_statements db)) \<and>
      (\<forall>r \<in> set (kb_statements db). r \<notin> set (kb_statements (removeStatements g1 db)) \<longrightarrow>
         graph r = g1 \<or> cascaded db (removeStatements g1 db) r) \<and>
      (\<forall>db2. removeStatement statementId db = Inr db2 \<longrightarrow>
         (\<exists>Q. kb_statements db2 = filter Q (kb_statements db)) \<and>
         (\<forall>r \<in> set (kb_statements db). r \<notin> set (kb_statements db2) \<longrightarrow>
            parseInt statementId = Finite (statement_id r) \<or> cascaded db db2 r)))"
proof (intro conjI impI ballI allI)
  show "getStatements df g1 db =
     getStatements df g1 (db\<lparr>kb_statements := filter (\<lambda>r. graph r = g1) (kb_statements db)\<rparr>)"
    by (simp add: getStatements_def getStatements_rows_def)
next
  assume "(\<forall>q \<in> set statements. term_value (q_graph q) = g1) \<and> g2 \<noteq> g1 \<and>
      addStatements statements db = Inr db'"
  then show "filter (\<lambda>r. graph r = g2) (kb_statements db') = filter (\<lambda>r. graph r = g2) (kb_statements db)"
    using addStatements_other_graph[of statements g1 g2 db db'] by blast
next
  show "\<exists>Q. kb_statements (removeStatements g1 db) = filter Q (kb_statements db)"
    unfolding removeStatements_def by (rule sql_delete_filter)
next
  fix r
  assume "distinct (map statement_id (kb_statements db))" "r \<in> set (kb_statements db)"
    "r \<notin> set (kb_statements (removeStatements g1 db))"
  then show "graph r = g1 \<or> cascaded db (removeStatements g1 db) r"
    unfolding removeStatements_def by (rule sql_delete_cause)
next
  fix db2
  assume "removeStatement statementId db = Inr db2"
  from removeStatement_cases[OF this]
  show "\<exists>Q. kb_statements db2 = filter Q (kb_statements db)"
  proof
    assume "db2 = db"
    then have "kb_statements db2 = filter (\<lambda>r. True) (kb_statements db)"
      by simp
    then show ?thesis by (rule exI[of _ "\<lambda>r. True"])
  next
    assume "\<exists>n. parseInt statementId = Finite n \<and> db2 = sql_delete (\<lambda>r. statement_id r = n) db"
    then show ?thesis
      using sql_delete_filter by blast
  qed
next
  fix db2 r
  assume a: "distinct (map statement_id (kb_statements db))" "r \<in> set (kb_statements db)"
    "r \<notin> set (kb_statements db2)" and "removeStatement statementId db = Inr db2"
  from removeStatement_cases[OF this(4)] a(2,3)
  obtain n where n: "parseInt statementId = Finite n" "db2 = sql_delete (\<lambda>r. statement_id r = n) db"
    by auto
  from a sql_delete_cause[of db r "\<lambda>r. statement_id r = n"] n
  show "parseInt statementId = Finite (statement_id r) \<or> cascaded db db2 r"
    by auto
qed

theorem graph_scope_up_to_cascade_witness:
  "distinct (map statement_id (kb_statements two_graphs)) \<and>
   last (kb_statements two_graphs) \<in> set (kb_statements two_graphs) \<and>
   last (kb_statements two_graphs)
     \<notin> set (kb_statements (removeStatements ''http://example.org/g1'' two_graphs)) \<and>
   graph (last (kb_statements two_graphs)) = ''http://example.org/g2'' \<and>
   cascaded two_graphs (removeStatements ''http://example.org/g1'' two_graphs)
     (last (kb_statements two_graphs)) \<and>
   removeStatement ''1'' two_graphs =
     Inr (two_graphs\<lparr>kb_statements := [kb_statements two_graphs ! 2]\<rparr>) \<and>
   cascaded two_graphs (two_graphs\<lparr>kb_statements := [kb_statements two_graphs ! 2]\<rparr>)
     (last (kb_statements two_graphs)) \<and>
   (\<exists>db'. addStatements [leaf_quad] two_graphs = Inr db' \<and>
      filter (\<lambda>r. graph r = ''http://example.org/g2'') (kb_statements db') =
      filter (\<lambda>r. graph r = ''http://example.org/g2'') (kb_statements two_graphs))"
proof -
  let ?r = "last (kb_statements two_graphs)"
  let ?g1 = "''http://example.org/g1''"
  have res: "map statement_id (kb_statements (removeStatements ?g1 two_graphs)) = [3]"
    by (simp add: two_graphs_def delete_eval)
  have h: "distinct (map statement_id (kb_statements two_graphs))"
      "?r \<in> set (kb_statements two_graphs)" "graph ?r = ''http://example.org/g2''"
      "statement_id ?r = 4"
    by (simp_all add: two_graphs_def)
  have gone: "?r \<notin> set (kb_statements (removeStatements ?g1 two_graphs))"
  proof
    assume "?r \<in> set (kb_statements (removeStatements ?g1 two_graphs))"
    then have "statement_id ?r \<in> set (map statement_id (kb_statements (removeStatements ?g1 two_graphs)))"
      by simp
    with res h(4) show False by simp
  qed
  from graph_scope_up_to_cascade[of rdf_data_factory ?g1 two_graphs "[leaf_quad]"
      "''http://example.org/g2''" two_graphs "''1''"] h(1)
  have "\<forall>r \<in> set (kb_statements two_graphs).
          r \<notin> set (kb_statements (removeStatements ?g1 two_graphs)) \<longrightarrow>
          graph r = ?g1 \<or> cascaded two_graphs (removeStatements ?g1 two_graphs) r"
    by blast
  with h(2) gone have "graph ?r = ?g1 \<or> cascaded two_graphs (removeStatements ?g1 two_graphs) ?r"
    by blast
  with h(3) have c: "cascaded two_graphs (removeStatements ?g1 two_graphs) ?r"
    by simp
  let ?db2 = "two_graphs\<lparr>kb_statements := [kb_statements two_graphs ! 2]\<rparr>"
  have rm: "removeStatement ''1'' two_graphs = Inr ?db2"
    by (simp add: two_graphs_def parse_eval delete_eval)
  have gone2: "?r \<notin> set (kb_statements ?db2)"
    by (simp add: two_graphs_def)
  have id: "parseInt ''1'' \<noteq> Finite (statement_id ?r)"
    by (simp add: parse_eval h(4))
  from graph_scope_up_to_cascade[of rdf_data_factory ?g1 two_graphs "[leaf_quad]"
      "''http://example.org/g2''" two_graphs "''1''"] h(1) rm
  have "\<forall>r \<in> set (kb_statements two_graphs). r \<notin> set (kb_statements ?db2) \<longrightarrow>
          parseInt ''1'' = Finite (statement_id r) \<or> cascaded two_graphs ?db2 r"
    by blast
  with h(2) gone2 id have c2: "cascaded two_graphs ?db2 ?r"
    by blast
  obtain db' where db': "addStatements [leaf_quad] two_graphs = Inr db'"
    using addStatements_returns by blast
  have "\<forall>q \<in> set [leaf_quad]. term_value (q_graph q) = ''http://example.org/g''"
    by (simp add: leaf_quad_def)
  with graph_scope_up_to_cascade[of rdf_data_factory "''http://example.org/g''" two_graphs
      "[leaf_quad]" "''http://example.org/g2''" db' "''1''"] db'
  have "filter (\<lambda>r. graph r = ''http://example.org/g2'') (kb_statements db') =
      filter (\<lambda>r. graph r = ''http://example.org/g2'') (kb_statements two_graphs)"
    by simp
  with h gone c rm c2 db' show ?thesis by blast
qed

text \<open>
  C3, as stated, fails: the trigger deletes the statements of a deleted blank node, and
  the rows that delete removes fire the trigger again only on a connection that has set
  \<open>PRAGMA recursive_triggers = ON\<close>, as the note above the trigger requires. The setting
  is off unless a connection turns it on, and no source of the store does. On such a
  connection the store holding exactly \<open>(A, p, _b1)\<close>, \<open>(_b1, q, _b2)\<close>,
  \<open>(_b2, r, "leaf")\<close> keeps its third statement when the first is removed: the second,
  whose object is the blank node \<open>_b2\<close>, is deleted, and \<open>_b2\<close> is still the subject of a
  row.
\<close>

theorem cascade_stops_without_recursive_triggers:
  "addStatements cascade_example_quads (empty_database False) = Inr three_rows_default \<and>
   removeStatement ''1'' three_rows_default =
     Inr (three_rows_default\<lparr>kb_statements := [kb_statements three_rows_default ! 2]\<rparr>) \<and>
   term_type (kb_statements three_rows_default ! 1) = ''BlankNode'' \<and>
   object (kb_statements three_rows_default ! 1) = ''b2'' \<and>
   subject (kb_statements three_rows_default ! 2) = ''b2''"
proof (intro conjI)
  show "addStatements cascade_example_quads (empty_database False) = Inr three_rows_default"
    by (simp add: cascade_example_quads_def three_rows_default_def three_rows_def insert_eval
        xsd_string_def)
  show "removeStatement ''1'' three_rows_default =
     Inr (three_rows_default\<lparr>kb_statements := [kb_statements three_rows_default ! 2]\<rparr>)"
    by (simp add: three_rows_default_def three_rows_def parse_eval delete_eval)
qed (simp_all add: three_rows_default_def three_rows_def)

text \<open>
  C3, amended. On a connection with recursive triggers the cascading delete is complete.
  The store holding exactly \<open>(A, p, _b1)\<close>, \<open>(_b1, q, _b2)\<close>, \<open>(_b2, r, "leaf")\<close> is empty
  after the first statement is removed. In general, on such a connection and a table
  whose ids are unique (the primary key), after \<open>removeStatement\<close> or \<open>removeStatements\<close>
  no remaining row has as subject the object of a deleted row that the trigger takes for
  a blank node.
\<close>

theorem cascading_delete_complete:
  "(\<exists>db. cascade_example = Inr db \<and> length (kb_statements db) = 3 \<and>
         (\<exists>db'. removeStatement ''1'' db = Inr db' \<and> kb_statements db' = [])) \<and>
   (recursive_triggers db \<and> distinct (map statement_id (kb_statements db)) \<and>
    (removeStatement statementId db = Inr db' \<or> db' = removeStatements graphId db) \<and>
    d \<in> set (kb_statements db) \<and> d \<notin> set (kb_statements db') \<and> kb_statements_ad_bn_when d
    \<longrightarrow> (\<forall>r \<in> set (kb_statements db'). subject r \<noteq> object d))"
proof (intro conjI impI ballI)
  show "\<exists>db. cascade_example = Inr db \<and> length (kb_statements db) = 3 \<and>
         (\<exists>db'. removeStatement ''1'' db = Inr db' \<and> kb_statements db' = [])"
    unfolding cascade_example_eval
    by (simp add: three_rows_def parse_eval delete_eval)
next
  fix r
  assume a: "recursive_triggers db \<and> distinct (map statement_id (kb_statements db)) \<and>
    (removeStatement statementId db = Inr db' \<or> db' = removeStatements graphId db) \<and>
    d \<in> set (kb_statements db) \<and> d \<notin> set (kb_statements db') \<and> kb_statements_ad_bn_when d"
    and r: "r \<in> set (kb_statements db')"
  from a have "db' = db \<or> (\<exists>P. db' = sql_delete P db)"
    using removeStatement_cases[of statementId db db'] by (auto simp: removeStatements_def)
  then show "subject r \<noteq> object d"
  proof
    assume "db' = db"
    with a show ?thesis by auto
  next
    assume "\<exists>P. db' = sql_delete P db"
    then obtain P where "db' = sql_delete P db" ..
    with a r sql_delete_complete[of db d P r] show ?thesis by simp
  qed
qed

theorem cascading_delete_complete_witness:
  "recursive_triggers chain_db \<and> distinct (map statement_id (kb_statements chain_db)) \<and>
   removeStatement ''1'' chain_db =
     Inr (chain_db\<lparr>kb_statements := [kb_statements chain_db ! 2]\<rparr>) \<and>
   hd (kb_statements chain_db) \<in> set (kb_statements chain_db) \<and>
   hd (kb_statements chain_db) \<notin> set [kb_statements chain_db ! 2] \<and>
   kb_statements_ad_bn_when (hd (kb_statements chain_db)) \<and>
   map statement_id [kb_statements chain_db ! 2] = [3] \<and>
   list_all (\<lambda>r. subject r \<noteq> ''b1'') [kb_statements chain_db ! 2]"
proof -
  let ?d = "hd (kb_statements chain_db)"
  let ?db' = "chain_db\<lparr>kb_statements := [kb_statements chain_db ! 2]\<rparr>"
  have rm: "removeStatement ''1'' chain_db = Inr ?db'"
    by (simp add: chain_db_def parse_eval delete_eval)
  have res: "kb_statements ?db' = [kb_statements chain_db ! 2]"
    by simp
  have h: "recursive_triggers chain_db" "distinct (map statement_id (kb_statements chain_db))"
      "?d \<in> set (kb_statements chain_db)" "kb_statements_ad_bn_when ?d"
    by (simp_all add: chain_db_def kb_statements_ad_bn_when_def)
  have gone: "?d \<notin> set (kb_statements ?db')"
    unfolding res by (simp add: chain_db_def)
  have obj: "object ?d = ''b1''"
    by (simp add: chain_db_def)
  from cascading_delete_complete[of chain_db "''1''" ?db' "[]" ?d] h gone rm
  have "\<forall>r \<in> set (kb_statements ?db'). subject r \<noteq> object ?d" by blast
  then have "list_all (\<lambda>r. subject r \<noteq> ''b1'') [kb_statements chain_db ! 2]"
    by (simp add: obj)
  moreover have "map statement_id [kb_statements chain_db ! 2] = [3]"
    by (simp add: chain_db_def)
  ultimately show ?thesis using h gone rm by simp
qed

text \<open>
  C4. Inserting is idempotent and a duplicate never raises. \<open>addStatements\<close> always
  returns; applied a second time to the same batch it returns again and leaves the rows of
  the table as they were. On a table that satisfies \<open>kb_statement_unique\<close> the result
  satisfies it too and holds exactly one row for each statement of the batch, also when the
  batch names a statement twice.
\<close>

theorem addStatements_idempotent:
  "\<exists>db' db''.
     addStatements statements db = Inr db' \<and>
     addStatements statements db' = Inr db'' \<and>
     kb_statements db'' = kb_statements db' \<and>
     (distinct (map kb_statement_unique (kb_statements db)) \<longrightarrow>
        distinct (map kb_statement_unique (kb_statements db')) \<and>
        (\<forall>q \<in> set statements.
           length (filter (\<lambda>r. kb_statement_unique r = kb_statement_unique (addStatements_values q))
                     (kb_statements db')) = 1))"
proof (cases "statements = []")
  case True
  then show ?thesis by (simp add: addStatements_def)
next
  case False
  let ?vs = "map addStatements_values statements"
  obtain db' where 1: "insert_values DoNothing ?vs db = Inr db'"
    using insert_values_returns by blast
  obtain db'' where 2: "insert_values DoNothing ?vs db' = Inr db''"
    using insert_values_returns by blast
  have keys: "set (map kb_statement_unique (kb_statements db')) =
       set (map kb_statement_unique (kb_statements db)) \<union> set (map kb_statement_unique ?vs)"
    using insert_values_keys[OF 1] .
  then have same: "kb_statements db'' = kb_statements db'"
    using insert_values_present[OF _ 2] by blast
  have once: "length (filter (\<lambda>r. kb_statement_unique r = kb_statement_unique (addStatements_values q))
                     (kb_statements db')) = 1"
    if "distinct (map kb_statement_unique (kb_statements db))" and "q \<in> set statements" for q
  proof -
    have "distinct (map kb_statement_unique (kb_statements db'))"
      using insert_values_distinct[OF 1 that(1)] .
    moreover have "kb_statement_unique (addStatements_values q) \<in> kb_statement_unique ` set (kb_statements db')"
      using keys that(2) by auto
    ultimately show ?thesis by (rule count_distinct_key)
  qed
  show ?thesis
    using False 1 2 same once insert_values_distinct[OF 1]
    by (auto simp: addStatements_def)
qed

theorem addStatements_idempotent_witness:
  "distinct (map kb_statement_unique (kb_statements (empty_database True))) \<and>
   (\<exists>db'. addStatements [leaf_quad, leaf_quad] (empty_database True) = Inr db' \<and>
      length (kb_statements db') = 1 \<and>
      length (filter (\<lambda>r. kb_statement_unique r = kb_statement_unique (addStatements_values leaf_quad))
                (kb_statements db')) = 1 \<and>
      (\<exists>db''. addStatements [leaf_quad, leaf_quad] db' = Inr db'' \<and>
         kb_statements db'' = kb_statements db'))"
proof -
  have h: "distinct (map kb_statement_unique (kb_statements (empty_database True)))"
    by (simp add: empty_database_def)
  from addStatements_idempotent[of "[leaf_quad, leaf_quad]" "empty_database True"] h
  obtain db' db'' where
    r: "addStatements [leaf_quad, leaf_quad] (empty_database True) = Inr db'"
      "addStatements [leaf_quad, leaf_quad] db' = Inr db''"
      "kb_statements db'' = kb_statements db'"
      "length (filter (\<lambda>r. kb_statement_unique r = kb_statement_unique (addStatements_values leaf_quad))
                (kb_statements db')) = 1"
    by auto
  from r(1) have "length (kb_statements db') = 1"
    by (auto simp: insert_eval leaf_quad_def)
  with h r show ?thesis by blast
qed

text \<open>
  C5, as stated, fails on the row whose language and datatype columns are both empty:
  the code has two cases, not three. It passes \<open>row.objectLanguage ||
  this.df.namedNode(row.objectDatatype)\<close>, so with an empty language the datatype node is
  built from the empty string, and the literal the reference factory returns has that
  empty datatype, not \<open>xsd:string\<close>.
\<close>

theorem untyped_literal_not_plain:
  "getStatements rdf_data_factory ''http://example.org/g'' untyped_literal =
     Inr [Quad (NamedNode ''http://example.org/s'') (NamedNode ''http://example.org/p'')
            (Literal ''o'' [] []) (NamedNode ''http://example.org/g'')] \<and>
   getStatement rdf_data_factory ''1'' untyped_literal =
     Inr (Some (Quad (NamedNode ''http://example.org/s'') (NamedNode ''http://example.org/p'')
                  (Literal ''o'' [] []) (NamedNode ''http://example.org/g''))) \<and>
   Literal ''o'' [] [] \<noteq> plain_literal ''o''"
  by (simp add: select_eval parse_eval untyped_literal_def plain_literal_def xsd_string_def)

text \<open>
  C5, amended. For a row with \<open>term_type = 'Literal'\<close>, \<open>getStatements\<close> and
  \<open>getStatement\<close> build the same object. With a factory that follows the RDF/JS
  interface it is, when the factory returns: the language-tagged literal if
  \<open>object_language\<close> is not empty; otherwise the literal whose datatype is the named node
  of \<open>object_datatype\<close>, which is the plain string literal when that column holds
  \<open>xsd:string\<close>. The reference factory always returns.
\<close>

theorem literal_row_decoding:
  "term_type row = ''Literal'' \<longrightarrow>
     getStatement_object df row = getStatements_object df row \<and>
     (rdfjs_factory df \<longrightarrow>
        (\<forall>t. getStatements_object df row = Inr t \<longrightarrow>
           (object_language row \<noteq> [] \<longrightarrow>
              t = Literal (object row) (object_language row) rdf_langString) \<and>
           (object_language row = [] \<longrightarrow> t = Literal (object row) [] (object_datatype row)) \<and>
           (object_language row = [] \<and> object_datatype row = xsd_string \<longrightarrow>
              t = plain_literal (object row)))) \<and>
     (\<exists>t. getStatements_object rdf_data_factory row = Inr t)"
proof (intro impI conjI allI)
  assume "term_type row = ''Literal''"
  then show "getStatement_object df row = getStatements_object df row"
    by (simp add: getStatement_object_def getStatements_object_def)
next
  fix t
  assume a: "term_type row = ''Literal''" "rdfjs_factory df" "getStatements_object df row = Inr t"
  note t = literal_object_rdfjs[OF a(2) a(1) a(3)]
  show "t = Literal (object row) (object_language row) rdf_langString" if "object_language row \<noteq> []"
    using t that by simp
  show "t = Literal (object row) [] (object_datatype row)" if "object_language row = []"
    using t that by simp
  show "t = plain_literal (object row)" if "object_language row = [] \<and> object_datatype row = xsd_string"
    using t that by (simp add: plain_literal_def)
next
  assume "term_type row = ''Literal''"
  then show "\<exists>t. getStatements_object rdf_data_factory row = Inr t"
    by (simp add: getStatements_object_def languageOrDatatype_def)
qed

theorem literal_row_decoding_witness:
  "term_type (hd (kb_statements one_row)) = ''Literal'' \<and>
   rdfjs_factory rdf_data_factory \<and>
   object_language (hd (kb_statements one_row)) = [] \<and>
   object_datatype (hd (kb_statements one_row)) = xsd_string \<and>
   getStatements_object rdf_data_factory (hd (kb_statements one_row)) = Inr (plain_literal ''o'')"
proof -
  let ?row = "hd (kb_statements one_row)"
  have h: "term_type ?row = ''Literal''" "rdfjs_factory rdf_data_factory"
      "object_language ?row = []" "object_datatype ?row = xsd_string" "object ?row = ''o''"
    by (simp_all add: one_row_def rdfjs_factory_rdf_data_factory)
  from literal_row_decoding[of ?row rdf_data_factory] h(1)
  obtain t where t: "getStatements_object rdf_data_factory ?row = Inr t"
    by blast
  with literal_row_decoding[of ?row rdf_data_factory] h
  have "t = plain_literal ''o''"
    by auto
  with t h show ?thesis by simp
qed

text \<open>
  C6. \<open>getStatement\<close> is to return \<open>null\<close>, and not to throw, for an id that is not the
  text of an integer. It guards against \<open>NaN\<close> only. An id of so many digits that
  \<open>parseInt\<close> gives \<open>Infinity\<close>, such as \<open>1\<close> followed by 309 zeros, passes the guard; the
  client refuses the number as an argument of the query, and \<open>getStatement\<close> throws a
  \<open>RangeError\<close> where the claim has it return \<open>null\<close>, whatever the table and the factory.
\<close>

theorem getStatement_throws_on_infinite_id:
  "parseInt infinite_id = Infinity \<and> \<not> isNaN (parseInt infinite_id) \<and>
   getStatement df infinite_id db = Inl RangeError"
proof -
  have "parseInt infinite_id = Infinity"
    by (rule parseInt_infinite_id)
  then show ?thesis
    by (simp add: getStatement_def valueToSql_def isNaN_def)
qed

text \<open>
  C7. After every run of the store's writing methods on an empty table, the rows
  \<open>getStatements\<close> reads for a graph are in ascending \<open>statement_id\<close> order, and the
  quads it returns are the conversions of its rows, one by one in their order.
\<close>

theorem getStatements_ascending:
  "sorted_wrt (<)
     (map statement_id (getStatements_rows graphId (run calls (empty_database rt)))) \<and>
   (\<forall>quads. getStatements df graphId db = Inr quads \<longrightarrow>
      map (quad_of_row df getStatements_object) (getStatements_rows graphId db) = map Inr quads)"
proof (intro conjI allI impI)
  have "sorted_wrt (<) (map statement_id (kb_statements (empty_database rt)))"
    by (simp add: empty_database_def)
  then have "sorted_wrt (<) (map statement_id (kb_statements (run calls (empty_database rt))))"
    by (rule run_rowid_order)
  then show "sorted_wrt (<)
     (map statement_id (getStatements_rows graphId (run calls (empty_database rt))))"
    by (simp add: getStatements_rows_def sorted_wrt_map sorted_wrt_filter)
next
  fix quads
  assume "getStatements df graphId db = Inr quads"
  then show "map (quad_of_row df getStatements_object) (getStatements_rows graphId db) = map Inr quads"
    by (simp add: getStatements_def map_rows_Inr_D)
qed

theorem getStatements_ascending_witness:
  "run [AddStatements cascade_example_quads, RemoveStatements ''http://example.org/none'']
     (empty_database True) = three_rows \<and>
   map statement_id (getStatements_rows ''http://example.org/g'' three_rows) = [1, 2, 3] \<and>
   sorted_wrt (<) (map statement_id (getStatements_rows ''http://example.org/g'' three_rows)) \<and>
   getStatements rdf_data_factory ''http://example.org/g'' three_rows =
     Inr [Quad (NamedNode ''http://example.org/A'') (NamedNode ''http://example.org/p'')
            (NamedNode ''b1'') (NamedNode ''http://example.org/g''),
          Quad (NamedNode ''b1'') (NamedNode ''http://example.org/q'')
            (NamedNode ''b2'') (NamedNode ''http://example.org/g''),
          Quad (NamedNode ''b2'') (NamedNode ''http://example.org/r'')
            (Literal ''leaf'' [] xsd_string) (NamedNode ''http://example.org/g'')] \<and>
   map (quad_of_row rdf_data_factory getStatements_object)
     (getStatements_rows ''http://example.org/g'' three_rows) =
     map Inr
       [Quad (NamedNode ''http://example.org/A'') (NamedNode ''http://example.org/p'')
          (NamedNode ''b1'') (NamedNode ''http://example.org/g''),
        Quad (NamedNode ''b1'') (NamedNode ''http://example.org/q'')
          (NamedNode ''b2'') (NamedNode ''http://example.org/g''),
        Quad (NamedNode ''b2'') (NamedNode ''http://example.org/r'')
          (Literal ''leaf'' [] xsd_string) (NamedNode ''http://example.org/g'')]"
proof -
  let ?calls = "[AddStatements cascade_example_quads, RemoveStatements ''http://example.org/none'']"
  let ?g = "''http://example.org/g''"
  have del: "removeStatements ''http://example.org/none'' three_rows = three_rows"
    by (simp add: three_rows_def delete_eval)
  have r: "run ?calls (empty_database True) = three_rows"
    using cascade_example_eval del by (simp add: run_def cascade_example_def)
  have ids: "map statement_id (getStatements_rows ?g three_rows) = [1, 2, 3]"
    by (simp add: getStatements_rows_def three_rows_def)
  have quads: "getStatements rdf_data_factory ?g three_rows =
     Inr [Quad (NamedNode ''http://example.org/A'') (NamedNode ''http://example.org/p'')
            (NamedNode ''b1'') (NamedNode ''http://example.org/g''),
          Quad (NamedNode ''b1'') (NamedNode ''http://example.org/q'')
            (NamedNode ''b2'') (NamedNode ''http://example.org/g''),
          Quad (NamedNode ''b2'') (NamedNode ''http://example.org/r'')
            (Literal ''leaf'' [] xsd_string) (NamedNode ''http://example.org/g'')]"
    by (simp add: select_eval three_rows_def xsd_string_def)
  note t = getStatements_ascending[of ?g ?calls True rdf_data_factory three_rows]
  from t have "sorted_wrt (<) (map statement_id (getStatements_rows ?g three_rows))"
    unfolding r by blast
  moreover from t quads have "map (quad_of_row rdf_data_factory getStatements_object)
     (getStatements_rows ?g three_rows) =
     map Inr
       [Quad (NamedNode ''http://example.org/A'') (NamedNode ''http://example.org/p'')
          (NamedNode ''b1'') (NamedNode ''http://example.org/g''),
        Quad (NamedNode ''b1'') (NamedNode ''http://example.org/q'')
          (NamedNode ''b2'') (NamedNode ''http://example.org/g''),
        Quad (NamedNode ''b2'') (NamedNode ''http://example.org/r'')
          (Literal ''leaf'' [] xsd_string) (NamedNode ''http://example.org/g'')]"
    by blast
  ultimately show ?thesis using r ids quads by blast
qed

text \<open>
  C8, as stated, fails twice. In its example, with full-text ranks \<open>{X:1, Y:2}\<close>, vector
  ranks \<open>{Y:1, Z:2}\<close> and \<open>k = 60\<close>, the chunk \<open>Y\<close> has rank 2 in the first list, so its
  score is \<open>1/62 + 1/61 = 123/3782\<close>, not \<open>2/61\<close>; the order \<open>Y, X, Z\<close> and the scores of
  \<open>X\<close> and \<open>Z\<close> are as stated. And the query orders by the score alone: when \<open>X\<close> leads the
  one list and \<open>Y\<close> the other, both score \<open>1/61\<close>, and \<open>Y\<close> (chunk 2) before \<open>X\<close> (chunk 1)
  is a result of the query, against the ascending chunk id of the claim.
\<close>

theorem xyz_score_and_ties:
  "rrf_score (combined_scores 60 [1, 2] [2, 3]) 2 = 123 / 3782 \<and>
   contribution 60 [1, 2] 2 + contribution 60 [2, 3] 2 = 1 / 62 + 1 / 61 \<and>
   (123 / 3782 :: rat) \<noteq> 2 / 61 \<and>
   rrf_query xyz_chunks (combined_scores 60 [1] [2]) [(2, Some 12, 1 / 61), (1, Some 11, 1 / 61)]"
proof (intro conjI)
  show "rrf_score (combined_scores 60 [1, 2] [2, 3]) 2 = 123 / 3782"
    by (simp add: rrf_score_def combined_scores_def)
  show "contribution 60 [1, 2] 2 + contribution 60 [2, 3] 2 = 1 / 62 + 1 / 61"
    by (simp add: contribution_def)
  show "(123 / 3782 :: rat) \<noteq> 2 / 61"
    by simp
  show "rrf_query xyz_chunks (combined_scores 60 [1] [2])
      [(2, Some 12, 1 / 61), (1, Some 11, 1 / 61)]"
    by (simp add: rrf_query_def xyz_chunks_def rrf_groups_def rrf_score_def combined_scores_def)
qed

text \<open>
  C8, amended. For a positive \<open>k\<close>, rank lists without repetitions and chunks with
  unique ids that cover the lists, the query has a result; in every result each entry is
  a chunk with its statement id, scored with the sum of \<open>1 / (k + rank)\<close> over the lists
  that hold it (an absent list adds zero); the chunks of the two lists have one entry
  each and no other chunk has one; and the entries are in descending score. The order
  among equal scores is not fixed: of two chunks that score \<open>1/61\<close> each, either may come
  first. In the example the scores are \<open>Y: 1/62 + 1/61\<close>, \<open>X: 1/61\<close>, \<open>Z: 1/62\<close> and the
  one result is \<open>Y, X, Z\<close>.
\<close>

theorem rrf_query_ranking:
  "(0 < k \<and> distinct fts \<and> distinct vec \<and> distinct (map chunk_id kb_chunks) \<and>
   set fts \<union> set vec \<subseteq> chunk_id ` set kb_chunks \<longrightarrow>
      (\<exists>res. rrf_query kb_chunks (combined_scores k fts vec) res) \<and>
      (\<forall>res. rrf_query kb_chunks (combined_scores k fts vec) res \<longrightarrow>
        (\<forall>e \<in> set res. \<exists>c \<in> set kb_chunks.
           fst e = chunk_id c \<and> fst (snd e) = chunk_statement_id c \<and>
           snd (snd e) = contribution k fts (fst e) + contribution k vec (fst e)) \<and>
        fst ` set res = set fts \<union> set vec \<and> distinct (map fst res) \<and>
        sorted_wrt (\<lambda>a b. snd (snd b) \<le> snd (snd a)) res)) \<and>
   rrf_query xyz_chunks (combined_scores 60 [1] [2]) [(1, Some 11, 1 / 61), (2, Some 12, 1 / 61)] \<and>
   rrf_query xyz_chunks (combined_scores 60 [1] [2]) [(2, Some 12, 1 / 61), (1, Some 11, 1 / 61)] \<and>
   (\<forall>res. rrf_query xyz_chunks (combined_scores 60 [1, 2] [2, 3]) res \<longleftrightarrow>
      res = [(2, Some 12, 1 / 62 + 1 / 61), (1, Some 11, 1 / 61), (3, Some 13, 1 / 62)])"
proof (intro conjI impI allI)
  show "rrf_query xyz_chunks (combined_scores 60 [1] [2])
      [(1, Some 11, 1 / 61), (2, Some 12, 1 / 61)]"
    by (simp add: rrf_query_def xyz_chunks_def rrf_groups_def rrf_score_def combined_scores_def)
  show "rrf_query xyz_chunks (combined_scores 60 [1] [2])
      [(2, Some 12, 1 / 61), (1, Some 11, 1 / 61)]"
    by (simp add: rrf_query_def xyz_chunks_def rrf_groups_def rrf_score_def combined_scores_def)
next
  fix res
  show "rrf_query xyz_chunks (combined_scores 60 [1, 2] [2, 3]) res \<longleftrightarrow>
      res = [(2, Some 12, 1 / 62 + 1 / 61), (1, Some 11, 1 / 61), (3, Some 13, 1 / 62)]"
    using xyz_query[of res] by simp
next
  show "\<exists>res. rrf_query kb_chunks (combined_scores k fts vec) res"
    using rrf_query_returns by blast
next
  fix res
  assume a: "0 < k \<and> distinct fts \<and> distinct vec \<and> distinct (map chunk_id kb_chunks) \<and>
   set fts \<union> set vec \<subseteq> chunk_id ` set kb_chunks"
    and q: "rrf_query kb_chunks (combined_scores k fts vec) res"
  from a have d: "distinct fts" "distinct vec" "distinct (map chunk_id kb_chunks)"
    "set fts \<union> set vec \<subseteq> chunk_id ` set kb_chunks"
    by simp_all
  note g = rrf_groups_facts[OF d, of k]
  note r = rrf_query_set[OF q]
  from g(1) show "\<forall>e \<in> set res. \<exists>c \<in> set kb_chunks.
           fst e = chunk_id c \<and> fst (snd e) = chunk_statement_id c \<and>
           snd (snd e) = contribution k fts (fst e) + contribution k vec (fst e)"
    unfolding r(1) .
  from g(2) show "fst ` set res = set fts \<union> set vec"
    unfolding r(1) .
  from g(3) show "distinct (map fst res)"
    unfolding r(2) .
  from q show "sorted_wrt (\<lambda>a b. snd (snd b) \<le> snd (snd a)) res"
    by (simp add: rrf_query_def)
qed

theorem rrf_query_ranking_witness:
  "(0 :: rat) < 60 \<and> distinct [1, 2 :: int] \<and> distinct [2, 3 :: int] \<and>
   distinct (map chunk_id xyz_chunks) \<and>
   set [1, 2] \<union> set [2, 3] \<subseteq> chunk_id ` set xyz_chunks \<and>
   rrf_query xyz_chunks (combined_scores 60 [1, 2] [2, 3])
     [(2, Some 12, 1 / 62 + 1 / 61), (1, Some 11, 1 / 61), (3, Some 13, 1 / 62)] \<and>
   fst ` set [(2 :: int, Some (12 :: int), 1 / 62 + 1 / 61 :: rat), (1, Some 11, 1 / 61),
              (3, Some 13, 1 / 62)] = set [1, 2] \<union> set [2, 3] \<and>
   sorted_wrt (\<lambda>a b. snd (snd b) \<le> snd (snd a))
     [(2 :: int, Some (12 :: int), 1 / 62 + 1 / 61 :: rat), (1, Some 11, 1 / 61),
      (3, Some 13, 1 / 62)]"
proof -
  let ?res = "[(2, Some 12, 1 / 62 + 1 / 61), (1, Some 11, 1 / 61), (3, Some 13, 1 / 62)]
    :: (int \<times> int option \<times> rat) list"
  have h: "(0 :: rat) < 60 \<and> distinct [1, 2 :: int] \<and> distinct [2, 3 :: int] \<and>
    distinct (map chunk_id xyz_chunks) \<and>
    set [1, 2] \<union> set [2, 3] \<subseteq> chunk_id ` set xyz_chunks"
    by (simp add: xyz_chunks_def)
  note t = rrf_query_ranking[of 60 "[1, 2]" "[2, 3]" xyz_chunks]
  from t have q: "rrf_query xyz_chunks (combined_scores 60 [1, 2] [2, 3]) ?res"
    by blast
  from t h q have "fst ` set ?res = set [1, 2] \<union> set [2, 3]"
    and "sorted_wrt (\<lambda>a b. snd (snd b) \<le> snd (snd a)) ?res"
    by blast+
  with h q show ?thesis
    by blast
qed

text \<open>
  C9. When \<open>parseInt\<close> of the id gives \<open>NaN\<close>, \<open>removeStatement\<close> returns with the
  database as it was: no row is deleted and no trigger runs.
\<close>

theorem removeStatement_NaN:
  "isNaN (parseInt statementId) \<Longrightarrow> removeStatement statementId db = Inr db"
  by (simp add: removeStatement_def)

theorem removeStatement_NaN_witness:
  "isNaN (parseInt ''not-a-number'') \<and> removeStatement ''not-a-number'' chain_db = Inr chain_db"
proof -
  have h: "isNaN (parseInt ''not-a-number'')"
    by (simp add: parse_eval)
  show ?thesis
    using h removeStatement_NaN[OF h] by simp
qed

text \<open>
  C10. With a factory that follows the RDF/JS interface, every quad \<open>getStatements\<close> or
  \<open>getStatement\<close> returns has a named node as subject, as predicate and as graph. The row
  an ingested quad becomes does not depend on the kinds of these three terms: it is the
  row of the quad that has named nodes of the same values in their places.
\<close>

theorem returned_terms_are_named_nodes:
  "(rdfjs_factory df \<and> getStatements df graphId db = Inr quads \<and> q \<in> set quads \<longrightarrow>
      termType (q_subject q) = ''NamedNode'' \<and> termType (q_predicate q) = ''NamedNode'' \<and>
      termType (q_graph q) = ''NamedNode'') \<and>
   (rdfjs_factory df \<and> getStatement df statementId db = Inr (Some q') \<longrightarrow>
      termType (q_subject q') = ''NamedNode'' \<and> termType (q_predicate q') = ''NamedNode'' \<and>
      termType (q_graph q') = ''NamedNode'') \<and>
   addStatements_values (Quad s p ob g) =
     addStatements_values (Quad (NamedNode (term_value s)) (NamedNode (term_value p)) ob
                             (NamedNode (term_value g)))"
proof (intro conjI impI)
  assume a: "rdfjs_factory df \<and> getStatements df graphId db = Inr quads \<and> q \<in> set quads"
  then have "map_rows (quad_of_row df getStatements_object) (getStatements_rows graphId db) = Inr quads"
    by (simp add: getStatements_def)
  from map_rows_member[OF this, of q] a
  obtain row :: statement where "quad_of_row df getStatements_object row = Inr q"
    by blast
  with a quad_of_row_Inr[of df getStatements_object row q]
  have q: "q = Quad (NamedNode (subject row)) (NamedNode (predicate row)) (q_object q) (NamedNode (graph row))"
    by blast
  show "termType (q_subject q) = ''NamedNode''" "termType (q_predicate q) = ''NamedNode''"
    "termType (q_graph q) = ''NamedNode''"
    by (subst q, simp)+
next
  assume a: "rdfjs_factory df \<and> getStatement df statementId db = Inr (Some q')"
  then obtain row :: statement where "quad_of_row df getStatement_object row = Inr q'"
    by (auto simp: getStatement_def Let_def split: if_splits list.splits sum.splits)
  with a quad_of_row_Inr[of df getStatement_object row q']
  have q: "q' = Quad (NamedNode (subject row)) (NamedNode (predicate row)) (q_object q') (NamedNode (graph row))"
    by blast
  show "termType (q_subject q') = ''NamedNode''" "termType (q_predicate q') = ''NamedNode''"
    "termType (q_graph q') = ''NamedNode''"
    by (subst q, simp)+
next
  show "addStatements_values (Quad s p ob g) =
     addStatements_values (Quad (NamedNode (term_value s)) (NamedNode (term_value p)) ob
                             (NamedNode (term_value g)))"
    by (simp add: addStatements_values_def)
qed

theorem returned_terms_are_named_nodes_witness:
  "rdfjs_factory rdf_data_factory \<and>
   cascade_example = Inr three_rows \<and>
   getStatements rdf_data_factory ''http://example.org/g'' three_rows =
     Inr [Quad (NamedNode ''http://example.org/A'') (NamedNode ''http://example.org/p'')
            (NamedNode ''b1'') (NamedNode ''http://example.org/g''),
          Quad (NamedNode ''b1'') (NamedNode ''http://example.org/q'')
            (NamedNode ''b2'') (NamedNode ''http://example.org/g''),
          Quad (NamedNode ''b2'') (NamedNode ''http://example.org/r'')
            (Literal ''leaf'' [] xsd_string) (NamedNode ''http://example.org/g'')] \<and>
   getStatement rdf_data_factory ''2'' three_rows =
     Inr (Some (Quad (NamedNode ''b1'') (NamedNode ''http://example.org/q'')
                  (NamedNode ''b2'') (NamedNode ''http://example.org/g''))) \<and>
   termType (q_subject (Quad (NamedNode ''b1'') (NamedNode ''http://example.org/q'')
                          (NamedNode ''b2'') (NamedNode ''http://example.org/g''))) = ''NamedNode''"
proof -
  let ?q = "Quad (NamedNode ''b1'') (NamedNode ''http://example.org/q'')
              (NamedNode ''b2'') (NamedNode ''http://example.org/g'')"
  let ?qs = "[Quad (NamedNode ''http://example.org/A'') (NamedNode ''http://example.org/p'')
            (NamedNode ''b1'') (NamedNode ''http://example.org/g''), ?q,
          Quad (NamedNode ''b2'') (NamedNode ''http://example.org/r'')
            (Literal ''leaf'' [] xsd_string) (NamedNode ''http://example.org/g'')]"
  have h1: "rdfjs_factory rdf_data_factory"
    by (rule rdfjs_factory_rdf_data_factory)
  have h2: "getStatements rdf_data_factory ''http://example.org/g'' three_rows = Inr ?qs"
    by (simp add: select_eval three_rows_def xsd_string_def)
  have h3: "getStatement rdf_data_factory ''2'' three_rows = Inr (Some ?q)"
    by (simp add: select_eval parse_eval three_rows_def)
  have h4: "?q \<in> set ?qs"
    by simp
  from returned_terms_are_named_nodes[of rdf_data_factory "''http://example.org/g''" three_rows
      ?qs ?q "''2''" ?q] h1 h2 h3 h4
  have "termType (q_subject ?q) = ''NamedNode''"
    by blast
  with h1 h2 h3 cascade_example_eval show ?thesis by blast
qed

end
